theory Spec2Isabelle
  imports Main "HOL-Library.Word"
begin

section \<open>Segment metadata of the AOE storage engine (package metadata, segment.go)\<close>

text \<open>
  The Go file declares the type \<open>Segment\<close> and its methods. The types it embeds or
  points to (\<open>BaseEntry\<close>, \<open>CommitInfo\<close>, \<open>Block\<close>, \<open>Table\<close>, \<open>Catalog\<close>, the log
  store) are declared in other files of the package; their fields are the ones the
  segment code reads and writes, and their methods follow the design document.

  Conventions of the embedding:
  \<^item> \<open>uint64\<close> is \<open>64 word\<close>; a slice length and a slice position are \<open>nat\<close>;
  \<^item> a Go pointer that may be nil is an \<open>option\<close>; a nil slice is \<open>None\<close>, an
    allocated one \<open>Some xs\<close>, where the code tells them apart;
  \<^item> struct embedding is record extension: \<open>Segment\<close> and \<open>Block\<close> extend
    \<open>BaseEntry\<close>, so \<open>Id e\<close> and \<open>CommitInfo e\<close> read the promoted fields;
  \<^item> a call either returns, panics, or blocks for ever on a lock that nobody will
    release (the run is a single thread): the type \<open>outcome\<close>;
  \<^item> the one Catalog of the engine is passed and returned explicitly; a
    \<open>*Catalog\<close> field only records whether the pointer is attached.
\<close>

subsection \<open>Outcomes\<close>

datatype 'a outcome = Returns 'a | Panics string | Blocks

definition bind :: "'a outcome \<Rightarrow> ('a \<Rightarrow> 'b outcome) \<Rightarrow> 'b outcome" where
  "bind m f = (case m of Returns x \<Rightarrow> f x | Panics s \<Rightarrow> Panics s | Blocks \<Rightarrow> Blocks)"

definition nil_deref :: string where
  "nil_deref = ''invalid memory address or nil pointer dereference''"

subsection \<open>Commit records and the versioned entry\<close>

type_synonym uint64 = "64 word"

text \<open>
  Modelled from the spec: the operations of a commit record ("one of Create,
  UpgradeSorted, SoftDelete"); the segment code names the first two.

  \<open>SimpleBatchId\<close> is declared outside the sources; it builds a batch id from a
  plain \<open>uint64\<close>, and the constructor stands for it. An \<open>ExternalIndex\<close> (a log
  index) carries such an id in its field \<open>Id\<close>. The fields of \<open>CommitInfo\<close> are
  those the segment code sets: \<open>CommitId\<close>, \<open>TranId\<close>, \<open>Op\<close>, \<open>ExternalIndex\<close>,
  \<open>PrevIndex\<close>, \<open>AppliedIndex\<close>, and the embedded list node.
\<close>

datatype OpT = OpCreate | OpUpgradeSorted | OpSoftDelete

datatype BatchId = SimpleBatchId uint64

fun batch_num :: "BatchId \<Rightarrow> uint64" where
  "batch_num (SimpleBatchId n) = n"

record ExternalIndex =
  Id :: BatchId

record CommitInfo =
  CommitId :: uint64
  TranId :: uint64
  Op :: OpT
  ExternalIndex :: "ExternalIndex option"
  PrevIndex :: "ExternalIndex option"
  AppliedIndex :: "ExternalIndex option"

text \<open>The zero value of the struct, as a composite literal that names no field.\<close>

definition zero_CommitInfo :: CommitInfo where
  "zero_CommitInfo =
     \<lparr>CommitId = 0, TranId = 0, Op = OpCreate, ExternalIndex = None,
      PrevIndex = None, AppliedIndex = None\<rparr>"

text \<open>
  \<open>sync.RWMutex\<close>, by its contract: any number of readers or one writer. In a
  single-threaded run an acquisition that cannot be granted never returns.
\<close>

record RWMutex =
  readers :: nat
  writer :: bool

definition free_mutex :: RWMutex where
  "free_mutex = \<lparr>readers = 0, writer = False\<rparr>"

text \<open>
  Modelled from the spec: \<open>BaseEntry\<close> is "\<open>{id, commit_chain}\<close>". The segment code
  uses its embedded lock (\<open>e.RLock()\<close>, \<open>&e.RWMutex\<close>), its \<open>Id\<close> and its pointer
  \<open>CommitInfo\<close> to the newest commit record. Each commit record embeds a list node
  (\<open>SSLLNode\<close>) linking it to the next older record; \<open>Older\<close> is the list of records
  reached that way, newest first.
\<close>

record BaseEntry =
  RWMutex :: RWMutex
  Id :: uint64
  CommitInfo :: CommitInfo
  Older :: "CommitInfo list"

text \<open>The commit chain as the design document orders it: oldest record first.\<close>

definition commit_chain :: "'a BaseEntry_scheme \<Rightarrow> CommitInfo list" where
  "commit_chain e = rev (CommitInfo e # Older e)"

definition RLock :: "'a BaseEntry_scheme \<Rightarrow> 'a BaseEntry_scheme outcome" where
  "RLock e =
     (if writer (RWMutex e) then Blocks
      else Returns (e\<lparr>RWMutex := (RWMutex e)\<lparr>readers := Suc (readers (RWMutex e))\<rparr>\<rparr>))"

definition RUnlock :: "'a BaseEntry_scheme \<Rightarrow> 'a BaseEntry_scheme outcome" where
  "RUnlock e =
     (if readers (RWMutex e) = 0 then Panics ''sync: RUnlock of unlocked RWMutex''
      else Returns (e\<lparr>RWMutex := (RWMutex e)\<lparr>readers := readers (RWMutex e) - 1\<rparr>\<rparr>))"

definition Lock :: "'a BaseEntry_scheme \<Rightarrow> 'a BaseEntry_scheme outcome" where
  "Lock e =
     (if writer (RWMutex e) \<or> 0 < readers (RWMutex e) then Blocks
      else Returns (e\<lparr>RWMutex := (RWMutex e)\<lparr>writer := True\<rparr>\<rparr>))"

definition Unlock :: "'a BaseEntry_scheme \<Rightarrow> 'a BaseEntry_scheme outcome" where
  "Unlock e =
     (if \<not> writer (RWMutex e) then Panics ''sync: Unlock of unlocked RWMutex''
      else Returns (e\<lparr>RWMutex := (RWMutex e)\<lparr>writer := False\<rparr>\<rparr>))"

text \<open>
  Modelled from the spec: the methods of \<open>BaseEntry\<close> (its file is not among the
  sources). "Exposes whether the entry is currently soft-deleted (last op =
  SoftDelete) and whether it is currently sorted (last op = UpgradeSorted)."
\<close>

definition IsSorted :: "'a BaseEntry_scheme \<Rightarrow> bool" where
  "IsSorted e = (Op (CommitInfo e) = OpUpgradeSorted)"

definition IsSoftDeletedLocked :: "'a BaseEntry_scheme \<Rightarrow> bool" where
  "IsSoftDeletedLocked e = (Op (CommitInfo e) = OpSoftDelete)"

text \<open>
  Modelled from the spec: \<open>onNewCommit\<close>, the chain's append. "\<open>append_commit(record)\<close>
  adds a new record; fails with InvariantViolation if \<open>record.commit_id\<close> \<open>\<le>\<close> chain's
  last commit_id." The new record becomes the current one and links to the old.
\<close>

definition onNewCommit :: "'a BaseEntry_scheme \<Rightarrow> CommitInfo \<Rightarrow> 'a BaseEntry_scheme outcome" where
  "onNewCommit e info =
     (if CommitId info \<le> CommitId (CommitInfo e) then Panics ''InvariantViolation''
      else Returns (e\<lparr>CommitInfo := info, Older := CommitInfo e # Older e\<rparr>))"

text \<open>
  Modelled from the spec: \<open>UseCommitted\<close>, the as-of read. "\<open>as_of(commit_id)\<close>
  returns the last record with commit_id \<open>\<le>\<close> the argument, scanning from the newest
  backward", or nil when "the entry had not yet been created". The entry returned is
  a copy: the id, the record found (with its links to the older ones), a fresh lock.
\<close>

fun as_of :: "CommitInfo list \<Rightarrow> uint64 \<Rightarrow> (CommitInfo \<times> CommitInfo list) option" where
  "as_of [] cid = None"
| "as_of (c # cs) cid = (if CommitId c \<le> cid then Some (c, cs) else as_of cs cid)"

definition UseCommitted :: "'a BaseEntry_scheme \<Rightarrow> uint64 \<Rightarrow> BaseEntry option" where
  "UseCommitted e cid =
     (case as_of (CommitInfo e # Older e) cid of
        None \<Rightarrow> None
      | Some (c, cs) \<Rightarrow> Some \<lparr>RWMutex = free_mutex, Id = Id e, CommitInfo = c, Older = cs\<rparr>)"

text \<open>
  Modelled from the spec: \<open>BaseEntry.GetAppliedIndex\<close>. "\<open>get_applied_index()\<close>
  returns the last record's \<open>applied_index\<close> if present."
\<close>

definition BaseEntry_GetAppliedIndex :: "'a BaseEntry_scheme \<Rightarrow> uint64 \<times> bool" where
  "BaseEntry_GetAppliedIndex e =
     (case AppliedIndex (CommitInfo e) of
        None \<Rightarrow> (0, False)
      | Some idx \<Rightarrow> (batch_num (ExternalIndex.Id idx), True))"

subsection \<open>Schema, table, catalog and log entries\<close>

text \<open>
  Modelled from the spec: the schema's limits, "segment_max_blocks" and
  "block_capacity". Of the table the segment code reads the id, the schema's
  \<open>SegmentMaxBlocks\<close> (converted with \<open>int(...)\<close>, so not an \<open>int\<close> itself: an
  unsigned 64-bit count) and the catalog pointer.
\<close>

record Schema =
  SegmentMaxBlocks :: uint64
  BlockMaxRows :: uint64

record Table = BaseEntry +
  Schema :: Schema
  Catalog :: "unit option"

datatype LogEntryType =
  ETCreateSegment | ETUpgradeSegment | ETDropSegment
  | ETCreateBlock | ETUpgradeBlock | ETDropBlock
  | ETOther nat

text \<open>
  Modelled from the spec: what \<open>encoding/json\<close> writes for a \<open>BaseEntry\<close> and for a
  block, whose declarations and tags are not among the sources.
  "\<open>deserialize(serialize(entry)) == entry\<close> for every BaseEntry field except
  non-owning back-references, which are never serialized": the id and the commit
  records are written in full, a block adds its row count. The lock has no exported
  field and is not written. For the segment the tags are in the source: \<open>Table\<close>,
  \<open>Catalog\<close> and \<open>IdIndex\<close> are left out, \<open>BlockSet\<close> is written.
\<close>

record BaseEntry_json =
  json_Id :: uint64
  json_CommitInfo :: CommitInfo
  json_Older :: "CommitInfo list"

record Block_json = BaseEntry_json +
  json_Count :: uint64

record Segment_json = BaseEntry_json +
  json_BlockSet :: "Block_json list"

datatype bytes =
  SegmentLogEntry_bytes BaseEntry_json uint64
  | BlockLogEntry_bytes BaseEntry_json uint64
  | Segment_bytes Segment_json

definition BaseEntry_Marshal :: "'a BaseEntry_scheme \<Rightarrow> BaseEntry_json" where
  "BaseEntry_Marshal e =
     \<lparr>json_Id = Id e, json_CommitInfo = CommitInfo e, json_Older = Older e\<rparr>"

text \<open>
  The log store is an external collaborator: an entry has a type in its meta data and
  a payload; the store is the sequence of entries appended so far.
\<close>

record LogEntry =
  Meta_Type :: "LogEntryType option"
  Payload :: "bytes option"

definition GetEmptyEntry :: LogEntry where
  "GetEmptyEntry = \<lparr>Meta_Type = None, Payload = None\<rparr>"

text \<open>
  Modelled from the spec: the Catalog's id sequence (its file is not among the
  sources). Identifiers are "monotonically allocated per object class"; \<open>rebuild\<close>
  "informs the Catalog's id sequence of every id encountered so the generator never
  reissues a used id".
\<close>

record Sequence =
  nextBlockId :: uint64
  nextUncommitId :: uint64

record Catalog =
  Sequence :: Sequence
  Store :: "LogEntry list"

definition NextBlockId :: "Catalog \<Rightarrow> uint64 \<times> Catalog" where
  "NextBlockId c =
     (nextBlockId (Sequence c) + 1,
      c\<lparr>Sequence := (Sequence c)\<lparr>nextBlockId := nextBlockId (Sequence c) + 1\<rparr>\<rparr>)"

definition NextUncommitId :: "Catalog \<Rightarrow> uint64 \<times> Catalog" where
  "NextUncommitId c =
     (nextUncommitId (Sequence c) + 1,
      c\<lparr>Sequence := (Sequence c)\<lparr>nextUncommitId := nextUncommitId (Sequence c) + 1\<rparr>\<rparr>)"

definition TryUpdateBlockId :: "Catalog \<Rightarrow> uint64 \<Rightarrow> Catalog" where
  "TryUpdateBlockId c bid =
     (if nextBlockId (Sequence c) < bid
      then c\<lparr>Sequence := (Sequence c)\<lparr>nextBlockId := bid\<rparr>\<rparr> else c)"

subsection \<open>Blocks\<close>

text \<open>
  Modelled from the spec: a block is "\<open>{entry_base, row_count, parent_segment
  (non-owning back-reference)}\<close>". The segment code reads \<open>blk.Id\<close>,
  \<open>blk.CommitInfo\<close> and \<open>blk.Count\<close>. The back-reference is held as the id of the
  segment pointed to.
\<close>

record Block = BaseEntry +
  Segment :: "uint64 option"
  Count :: uint64

text \<open>
  Modelled from the spec: the methods of \<open>Block\<close> (its file is not among the
  sources). "\<open>is_full()\<close>: row_count \<open>\<ge>\<close> configured capacity"; the capacity is
  the schema's, passed in by the caller. The applied index of a block is that of its
  entry. \<open>rebuild\<close> "reattaches the non-owning back-reference". The committed view is
  built as the segment's is: the entry as of the commit id, nothing else set.
\<close>

definition IsFull :: "uint64 \<Rightarrow> Block \<Rightarrow> bool" where
  "IsFull capacity blk = (capacity \<le> Count blk)"

definition Block_GetAppliedIndex :: "Block \<Rightarrow> uint64 \<times> bool" where
  "Block_GetAppliedIndex blk = BaseEntry_GetAppliedIndex blk"

definition Block_rebuild :: "Block \<Rightarrow> uint64 \<Rightarrow> Block" where
  "Block_rebuild blk seg = blk\<lparr>Segment := Some seg\<rparr>"

definition Block_CommittedView :: "Block \<Rightarrow> uint64 \<Rightarrow> Block option" where
  "Block_CommittedView blk cid =
     (case UseCommitted blk cid of
        None \<Rightarrow> None
      | Some b \<Rightarrow>
          Some \<lparr>RWMutex = RWMutex b, Id = Id b, CommitInfo = CommitInfo b, Older = Older b,
                Segment = None, Count = 0\<rparr>)"

text \<open>
  Modelled from the spec: a block's log entry carries "a serialized projection of
  the changed BaseEntry plus ... owning segment id for a block entry".
\<close>

definition Block_ToLogEntry :: "Block \<Rightarrow> LogEntryType \<Rightarrow> LogEntry outcome" where
  "Block_ToLogEntry blk eType =
     (case Segment blk of
        None \<Rightarrow> Panics nil_deref
      | Some seg \<Rightarrow>
          Returns \<lparr>Meta_Type = Some eType,
                   Payload = Some (BlockLogEntry_bytes (BaseEntry_Marshal blk) seg)\<rparr>)"

subsection \<open>Segments\<close>

datatype error = UpgradeInfullSegmentErr | UpgradeNotNeededErr

record segmentLogEntry =
  sle_BaseEntry :: BaseEntry
  TableId :: uint64

definition segmentLogEntry_Marshal :: "segmentLogEntry \<Rightarrow> bytes" where
  "segmentLogEntry_Marshal l =
     SegmentLogEntry_bytes (BaseEntry_Marshal (sle_BaseEntry l)) (TableId l)"

text \<open>
  The fields tagged \<open>json:"-"\<close> are \<open>Table\<close>, \<open>Catalog\<close> and \<open>IdIndex\<close>. A nil map can
  be read but not written, so \<open>IdIndex\<close> is an option.
\<close>

record Segment = BaseEntry +
  Table :: "Table option"
  Catalog :: "unit option"
  IdIndex :: "(uint64 \<rightharpoonup> nat) option"
  BlockSet :: "Block list"

text \<open>
  Modelled from the spec: \<open>newBlockEntry\<close> (declared with \<open>Block\<close>). It "allocates
  a new id from the Catalog, sets op=Create, row_count=0"; the fields are filled as
  \<open>newSegmentEntry\<close> fills them, the id coming from the catalog of the parent's table.
\<close>

definition newBlockEntry ::
  "Catalog \<Rightarrow> Segment \<Rightarrow> uint64 \<Rightarrow> ExternalIndex option \<Rightarrow> (Catalog \<times> Block) outcome" where
  "newBlockEntry cat e tranId exIndex =
     (case Table e of
        None \<Rightarrow> Panics nil_deref
      | Some t \<Rightarrow>
          (case Table.Catalog t of
             None \<Rightarrow> Panics nil_deref
           | Some _ \<Rightarrow>
               (let (bid, cat1) = NextBlockId cat in
                Returns (cat1,
                  \<lparr>RWMutex = free_mutex, Id = bid,
                   CommitInfo = \<lparr>CommitId = tranId, TranId = tranId, Op = OpCreate,
                     ExternalIndex = exIndex, PrevIndex = None, AppliedIndex = None\<rparr>,
                   Older = [], Segment = Some (Id e), Count = 0\<rparr>))))"

text \<open>\<open>rebuild\<close>: the loop over \<open>e.BlockSet\<close>, position \<open>i\<close> counting from 0.\<close>

fun rebuild_loop ::
  "unit option \<Rightarrow> uint64 \<Rightarrow> Catalog \<Rightarrow> nat \<Rightarrow> Block list \<Rightarrow> (uint64 \<rightharpoonup> nat) \<Rightarrow>
     (Catalog \<times> Block list \<times> (uint64 \<rightharpoonup> nat)) outcome" where
  "rebuild_loop cp seg cat i [] idx = Returns (cat, [], idx)"
| "rebuild_loop cp seg cat i (blk # blks) idx =
     (case cp of
        None \<Rightarrow> Panics nil_deref
      | Some _ \<Rightarrow>
          bind (rebuild_loop cp seg (TryUpdateBlockId cat (Id blk)) (Suc i) blks
                  (idx(Id blk \<mapsto> i)))
            (\<lambda>(cat', blks', idx'). Returns (cat', Block_rebuild blk seg # blks', idx')))"

definition rebuild :: "Catalog \<Rightarrow> Segment \<Rightarrow> Table \<Rightarrow> (Catalog \<times> Segment) outcome" where
  "rebuild cat e table =
     (let e1 = e\<lparr>Catalog := Table.Catalog table, Table := Some table,
                 IdIndex := Some Map.empty\<rparr>
      in bind (rebuild_loop (Catalog e1) (Id e1) cat 0 (BlockSet e1) Map.empty)
           (\<lambda>(cat', blks', idx'). Returns (cat', e1\<lparr>BlockSet := blks', IdIndex := Some idx'\<rparr>)))"

text \<open>\<open>CommittedView\<close>: the second loop keeps the views that are not nil.\<close>

fun view_loop :: "Block list \<Rightarrow> uint64 \<Rightarrow> Block list \<Rightarrow> Block list" where
  "view_loop [] cid acc = acc"
| "view_loop (blk # blks) cid acc =
     (case Block_CommittedView blk cid of
        None \<Rightarrow> view_loop blks cid acc
      | Some blkView \<Rightarrow> view_loop blks cid (acc @ [blkView]))"

definition CommittedView :: "Segment \<Rightarrow> uint64 \<Rightarrow> (Segment \<times> Segment option) outcome" where
  "CommittedView e cid =
     (case UseCommitted e cid of
        None \<Rightarrow> Returns (e, None)
      | Some baseEntry \<Rightarrow>
          (let view = \<lparr>RWMutex = RWMutex baseEntry, Id = Id baseEntry,
                        CommitInfo = CommitInfo baseEntry, Older = Older baseEntry,
                        Table = None, Catalog = None, IdIndex = None, BlockSet = []\<rparr>
           in bind (RLock e) (\<lambda>e1.
                let blks = BlockSet e1 in
                bind (RUnlock e1) (\<lambda>e2.
                  Returns (e2, Some (view\<lparr>BlockSet := view_loop blks cid (BlockSet view)\<rparr>))))))"

text \<open>
  \<open>Marshal\<close> and \<open>Unmarshal\<close> hand the segment to \<open>encoding/json\<close>. Decoding into a
  segment sets the fields the text carries and leaves the others as they are; the
  blocks of a decoded slice are new structs whose remaining fields are zero.
\<close>

definition Block_Marshal :: "Block \<Rightarrow> Block_json" where
  "Block_Marshal blk =
     \<lparr>json_Id = Id blk, json_CommitInfo = CommitInfo blk, json_Older = Older blk,
      json_Count = Count blk\<rparr>"

definition Block_Unmarshal :: "Block_json \<Rightarrow> Block" where
  "Block_Unmarshal j =
     \<lparr>RWMutex = free_mutex, Id = json_Id j, CommitInfo = json_CommitInfo j,
      Older = json_Older j, Segment = None, Count = json_Count j\<rparr>"

definition Marshal :: "Segment \<Rightarrow> bytes" where
  "Marshal e =
     Segment_bytes
       \<lparr>json_Id = Id e, json_CommitInfo = CommitInfo e, json_Older = Older e,
        json_BlockSet = map Block_Marshal (BlockSet e)\<rparr>"

datatype json_error = UnmarshalTypeError

definition Unmarshal :: "Segment \<Rightarrow> bytes \<Rightarrow> json_error + Segment" where
  "Unmarshal e buf =
     (case buf of
        Segment_bytes j \<Rightarrow>
          Inr (e\<lparr>Id := json_Id j, CommitInfo := json_CommitInfo j, Older := json_Older j,
                 BlockSet := map Block_Unmarshal (json_BlockSet j)\<rparr>)
      | _ \<Rightarrow> Inl UnmarshalTypeError)"

text \<open>The zero value of \<open>Segment\<close>, the target a caller decodes into.\<close>

definition zero_Segment :: Segment where
  "zero_Segment =
     \<lparr>RWMutex = free_mutex, Id = 0, CommitInfo = zero_CommitInfo, Older = [],
      Table = None, Catalog = None, IdIndex = None, BlockSet = []\<rparr>"

definition toLogEntry :: "Segment \<Rightarrow> segmentLogEntry outcome" where
  "toLogEntry e =
     (case Table e of
        None \<Rightarrow> Panics nil_deref
      | Some t \<Rightarrow> Returns \<lparr>sle_BaseEntry = BaseEntry.truncate e, TableId = Id t\<rparr>)"

definition ToLogEntry :: "Segment \<Rightarrow> LogEntryType \<Rightarrow> LogEntry outcome" where
  "ToLogEntry e eType =
     bind (case eType of
             ETCreateSegment \<Rightarrow> Returns ()
           | ETUpgradeSegment \<Rightarrow> Returns ()
           | ETDropSegment \<Rightarrow>
               (if \<not> IsSoftDeletedLocked e then Panics ''logic error'' else Returns ())
           | _ \<Rightarrow> Panics ''not supported'')
       (\<lambda>_. bind (toLogEntry e) (\<lambda>entry.
          let buf = segmentLogEntry_Marshal entry;
              logEntry = GetEmptyEntry;
              logEntry = logEntry\<lparr>Meta_Type := Some eType\<rparr>;
              logEntry = logEntry\<lparr>Payload := Some buf\<rparr>
          in Returns logEntry))"

text \<open>
  Modelled from the spec: \<open>Catalog.Commit\<close>. It "serializes a log-entry projection
  of the BaseEntry ... and hands it to the external log store for durable append";
  it "never performs the domain mutation itself".
\<close>

definition Commit :: "Catalog \<Rightarrow> LogEntry outcome \<Rightarrow> Catalog outcome" where
  "Commit cat entry = bind entry (\<lambda>l. Returns (cat\<lparr>Store := Store cat @ [l]\<rparr>))"

definition onNewBlock :: "Segment \<Rightarrow> Block \<Rightarrow> Segment outcome" where
  "onNewBlock e entry =
     (case IdIndex e of
        None \<Rightarrow> Panics ''assignment to entry in nil map''
      | Some idx \<Rightarrow>
          Returns (e\<lparr>IdIndex := Some (idx(Id entry \<mapsto> length (BlockSet e))),
                     BlockSet := BlockSet e @ [entry]\<rparr>))"

definition CreateBlock ::
  "Catalog \<Rightarrow> Segment \<Rightarrow> uint64 \<Rightarrow> ExternalIndex option \<Rightarrow> bool \<Rightarrow>
     (Catalog \<times> Segment \<times> Block) outcome" where
  "CreateBlock cat e tranId exIndex autoCommit =
     bind (newBlockEntry cat e tranId exIndex) (\<lambda>(cat1, be).
     bind (Lock e) (\<lambda>e1.
     bind (onNewBlock e1 be) (\<lambda>e2.
     bind (Unlock e2) (\<lambda>e3.
       if \<not> autoCommit then Returns (cat1, e3, be)
       else (case Catalog e3 of
               None \<Rightarrow> Panics nil_deref
             | Some _ \<Rightarrow>
                 bind (Commit cat1 (Block_ToLogEntry be ETCreateBlock))
                   (\<lambda>cat2. Returns (cat2, e3, be)))))))"

definition SimpleCreateBlock ::
  "Catalog \<Rightarrow> Segment \<Rightarrow> ExternalIndex option \<Rightarrow> (Catalog \<times> Segment \<times> Block) outcome" where
  "SimpleCreateBlock cat e exIndex =
     (case Table e of
        None \<Rightarrow> Panics nil_deref
      | Some t \<Rightarrow>
          (case Table.Catalog t of
             None \<Rightarrow> Panics nil_deref
           | Some _ \<Rightarrow>
               (let (tid, cat1) = NextUncommitId cat
                in CreateBlock cat1 e tid exIndex True)))"

text \<open>
  Modelled from the spec: \<open>blk.IsFull()\<close> as the segment calls it. The block reaches
  the configured capacity through its segment's table; without a table the read is a
  nil dereference.
\<close>

definition Block_IsFull :: "Segment \<Rightarrow> Block \<Rightarrow> bool outcome" where
  "Block_IsFull e blk =
     (case Table e of
        None \<Rightarrow> Panics nil_deref
      | Some t \<Rightarrow> Returns (IsFull (BlockMaxRows (Schema t)) blk))"

text \<open>
  \<open>HasMaxBlocks\<close>: \<open>||\<close> evaluates its right operand only when the left one is
  false; \<open>int(...)\<close> reads the 64 bits as a signed number.
\<close>

definition HasMaxBlocks :: "Segment \<Rightarrow> bool outcome" where
  "HasMaxBlocks e =
     (if IsSorted e then Returns True
      else (case Table e of
              None \<Rightarrow> Panics nil_deref
            | Some t \<Rightarrow>
                Returns (int (length (BlockSet e)) = sint (SegmentMaxBlocks (Schema t)))))"

definition Appendable :: "Segment \<Rightarrow> (Segment \<times> bool) outcome" where
  "Appendable e =
     bind (RLock e) (\<lambda>e1.
     bind (HasMaxBlocks e1) (\<lambda>h.
       if h then
         (if BlockSet e1 = [] then Panics ''index out of range [-1]''
          else bind (Block_IsFull e1 (last (BlockSet e1))) (\<lambda>f.
               bind (RUnlock e1) (\<lambda>e2. Returns (e2, \<not> f))))
       else bind (RUnlock e1) (\<lambda>e2. Returns (e2, True))))"

text \<open>
  \<open>calcAppliedIndex\<close>: the loop runs from the last position down to 0 and assigns
  the named results at every block; it stops at the first block whose index is there.
\<close>

fun calc_loop :: "Block list \<Rightarrow> uint64 \<times> bool \<Rightarrow> uint64 \<times> bool" where
  "calc_loop [] r = r"
| "calc_loop (blk # blks) r =
     (let r' = Block_GetAppliedIndex blk in if snd r' then r' else calc_loop blks r')"

definition calcAppliedIndex :: "Segment \<Rightarrow> uint64 \<times> bool" where
  "calcAppliedIndex e = calc_loop (rev (BlockSet e)) (0, False)"

text \<open>
  \<open>Upgrade\<close>. The loop over the blocks returns at the first block that is not full.
  The deferred \<open>Unlock\<close> runs at every return after \<open>Lock\<close>. Two of the returns under
  the read lock are not preceded by \<open>RUnlock\<close>.
\<close>

fun full_loop :: "Segment \<Rightarrow> Block list \<Rightarrow> bool outcome" where
  "full_loop e [] = Returns True"
| "full_loop e (blk # blks) =
     bind (Block_IsFull e blk) (\<lambda>f. if \<not> f then Returns False else full_loop e blks)"

definition new_cInfo ::
  "Segment \<Rightarrow> uint64 \<Rightarrow> OpT \<Rightarrow> ExternalIndex option list option \<Rightarrow> CommitInfo outcome" where
  "new_cInfo e tranId newOp exIndice =
     (let cInfo = zero_CommitInfo\<lparr>TranId := tranId, CommitId := tranId, Op := newOp\<rparr> in
      case exIndice of
        None \<Rightarrow>
          (let (n, ok) = calcAppliedIndex e in
           if ok then Returns (cInfo\<lparr>AppliedIndex := Some \<lparr>ExternalIndex.Id = SimpleBatchId n\<rparr>\<rparr>)
           else Returns cInfo)
      | Some [] \<Rightarrow> Panics ''index out of range [0] with length 0''
      | Some (x0 # rest) \<Rightarrow>
          (let cInfo = cInfo\<lparr>ExternalIndex := x0\<rparr> in
           case rest of
             [] \<Rightarrow> Returns cInfo
           | x1 # _ \<Rightarrow> Returns (cInfo\<lparr>PrevIndex := x1\<rparr>)))"

definition Upgrade ::
  "Catalog \<Rightarrow> Segment \<Rightarrow> uint64 \<Rightarrow> ExternalIndex option list option \<Rightarrow> bool \<Rightarrow>
     (Catalog \<times> Segment \<times> error option) outcome" where
  "Upgrade cat e tranId exIndice autoCommit =
     bind (RLock e) (\<lambda>e1.
     bind (HasMaxBlocks e1) (\<lambda>h.
       if \<not> h then
         bind (RUnlock e1) (\<lambda>e2. Returns (cat, e2, Some UpgradeInfullSegmentErr))
       else if IsSorted e1 then Returns (cat, e1, Some UpgradeNotNeededErr)
       else
         bind (full_loop e1 (BlockSet e1)) (\<lambda>full.
           if \<not> full then Returns (cat, e1, Some UpgradeInfullSegmentErr)
           else
             bind (RUnlock e1) (\<lambda>e2.
             bind (Lock e2) (\<lambda>e3.
               case Op (CommitInfo e3) of
                 OpCreate \<Rightarrow>
                   bind (new_cInfo e3 tranId OpUpgradeSorted exIndice) (\<lambda>cInfo.
                   bind (onNewCommit e3 cInfo) (\<lambda>e4.
                     if \<not> autoCommit then
                       bind (Unlock e4) (\<lambda>e5. Returns (cat, e5, None))
                     else
                       (case Table e4 of
                          None \<Rightarrow> Panics nil_deref
                        | Some t \<Rightarrow>
                            (case Table.Catalog t of
                               None \<Rightarrow> Panics nil_deref
                             | Some _ \<Rightarrow>
                                 bind (Commit cat (ToLogEntry e4 ETUpgradeSegment)) (\<lambda>cat1.
                                 bind (Unlock e4) (\<lambda>e5. Returns (cat1, e5, None)))))))
               | _ \<Rightarrow>
                   bind (Unlock e3) (\<lambda>e4. Returns (cat, e4, Some UpgradeNotNeededErr)))))))"

text \<open>
  \<open>SimpleGetOrCreateNextBlock\<close>, the caller that creates blocks on demand. \<open>Less\<close>
  is a method of \<open>Block\<close> that the sources do not hold: the order on blocks is a
  parameter. The loop runs from the last block down and stops at the first block
  that is full or not after \<open>from\<close>.
\<close>

fun next_loop ::
  "(Block option \<Rightarrow> Block \<Rightarrow> bool) \<Rightarrow> Segment \<Rightarrow> Block option \<Rightarrow> Block list \<Rightarrow>
     Block option \<Rightarrow> Block option outcome" where
  "next_loop Less e from [] ret = Returns ret"
| "next_loop Less e from (blk # blks) ret =
     bind (Block_IsFull e blk) (\<lambda>f.
       if \<not> f \<and> Less from blk then next_loop Less e from blks (Some blk)
       else Returns ret)"

definition SimpleGetOrCreateNextBlock ::
  "(Block option \<Rightarrow> Block \<Rightarrow> bool) \<Rightarrow> Catalog \<Rightarrow> Segment \<Rightarrow> Block option \<Rightarrow>
     (Catalog \<times> Segment \<times> Block option) outcome" where
  "SimpleGetOrCreateNextBlock Less cat e from =
     (if length (BlockSet e) = 0 then
        bind (SimpleCreateBlock cat e None) (\<lambda>(cat1, e1, be). Returns (cat1, e1, Some be))
      else
        bind (next_loop Less e from (rev (BlockSet e)) None) (\<lambda>ret.
        bind (if ret \<noteq> None then Returns True else HasMaxBlocks e) (\<lambda>stop.
          if stop then Returns (cat, e, ret)
          else bind (SimpleCreateBlock cat e None)
                 (\<lambda>(cat1, e1, be). Returns (cat1, e1, Some be)))))"

subsection \<open>States that the calls reach\<close>

text \<open>
  The entry with one more reader on its lock, the entry with its lock held by a
  writer, the segment after a successful upgrade, the catalog after one more entry
  went to the log store, and the segment after \<open>onNewBlock\<close>.
\<close>

definition rlocked :: "'a BaseEntry_scheme \<Rightarrow> 'a BaseEntry_scheme" where
  "rlocked e = e\<lparr>RWMutex := (RWMutex e)\<lparr>readers := Suc (readers (RWMutex e))\<rparr>\<rparr>"

definition wlocked :: "'a BaseEntry_scheme \<Rightarrow> 'a BaseEntry_scheme" where
  "wlocked e = e\<lparr>RWMutex := (RWMutex e)\<lparr>writer := True\<rparr>\<rparr>"

definition upgraded :: "Segment \<Rightarrow> CommitInfo \<Rightarrow> Segment" where
  "upgraded e cInfo = e\<lparr>CommitInfo := cInfo, Older := CommitInfo e # Older e\<rparr>"

definition logged :: "Catalog \<Rightarrow> LogEntry \<Rightarrow> Catalog" where
  "logged cat l = cat\<lparr>Store := Store cat @ [l]\<rparr>"

definition appended :: "Segment \<Rightarrow> (uint64 \<rightharpoonup> nat) \<Rightarrow> Block \<Rightarrow> Segment" where
  "appended e idx be =
     e\<lparr>IdIndex := Some (idx(Id be \<mapsto> length (BlockSet e))), BlockSet := BlockSet e @ [be]\<rparr>"

subsection \<open>Invariants and call sequences\<close>

text \<open>
  The invariants of the design document, in its words. The chain is "ordered by
  commit_id (oldest first)" and "for any two consecutive records, commit_id strictly
  increases"; an entry is created at the commit id of its oldest record; the index
  is consistent when "every block id maps to its current index".
\<close>

definition chain_sorted :: "'a BaseEntry_scheme \<Rightarrow> bool" where
  "chain_sorted e = sorted_wrt (<) (map CommitId (commit_chain e))"

definition created_at :: "'a BaseEntry_scheme \<Rightarrow> uint64" where
  "created_at e = CommitId (hd (commit_chain e))"

definition index_consistent :: "Segment \<Rightarrow> bool" where
  "index_consistent e =
     (case IdIndex e of
        None \<Rightarrow> False
      | Some idx \<Rightarrow>
          list_all (\<lambda>i. idx (Id (BlockSet e ! i)) = Some i) [0..<length (BlockSet e)])"

text \<open>
  A sequence of calls on one segment. It respects the schema's limit when every
  \<open>CreateBlock\<close> in it is issued while the segment holds fewer blocks than
  \<open>SegmentMaxBlocks\<close>.
\<close>

datatype seg_call =
  Call_CreateBlock uint64 "ExternalIndex option" bool
  | Call_Upgrade uint64 "ExternalIndex option list option" bool

fun is_create :: "seg_call \<Rightarrow> bool" where
  "is_create (Call_CreateBlock _ _ _) = True"
| "is_create (Call_Upgrade _ _ _) = False"

fun call :: "Catalog \<times> Segment \<Rightarrow> seg_call \<Rightarrow> (Catalog \<times> Segment) outcome" where
  "call (cat, e) (Call_CreateBlock tranId exIndex autoCommit) =
     bind (CreateBlock cat e tranId exIndex autoCommit) (\<lambda>(cat', e', be). Returns (cat', e'))"
| "call (cat, e) (Call_Upgrade tranId exIndice autoCommit) =
     bind (Upgrade cat e tranId exIndice autoCommit) (\<lambda>(cat', e', err). Returns (cat', e'))"

fun calls :: "Catalog \<times> Segment \<Rightarrow> seg_call list \<Rightarrow> (Catalog \<times> Segment) outcome" where
  "calls s [] = Returns s"
| "calls s (c # cs) = bind (call s c) (\<lambda>s'. calls s' cs)"

definition below_max :: "Segment \<Rightarrow> bool" where
  "below_max e =
     (case Table e of
        None \<Rightarrow> False
      | Some t \<Rightarrow> length (BlockSet e) < unat (SegmentMaxBlocks (Schema t)))"

fun respects_max :: "Catalog \<times> Segment \<Rightarrow> seg_call list \<Rightarrow> bool" where
  "respects_max s [] = True"
| "respects_max s (c # cs) =
     ((if is_create c then below_max (snd s) else True) \<and>
      (case call s c of Returns s' \<Rightarrow> respects_max s' cs | _ \<Rightarrow> True))"

subsection \<open>A small catalog: one table, segments of at most two blocks of four rows\<close>

definition ex_commit :: "uint64 \<Rightarrow> OpT \<Rightarrow> CommitInfo" where
  "ex_commit n opr = zero_CommitInfo\<lparr>CommitId := n, TranId := n, Op := opr\<rparr>"

definition ex_table :: Table where
  "ex_table =
     \<lparr>RWMutex = free_mutex, Id = 7, CommitInfo = ex_commit 1 OpCreate, Older = [],
      Schema = \<lparr>SegmentMaxBlocks = 2, BlockMaxRows = 4\<rparr>, Catalog = Some ()\<rparr>"

definition ex_block :: "uint64 \<Rightarrow> uint64 \<Rightarrow> uint64 \<Rightarrow> Block" where
  "ex_block bid cid rows =
     \<lparr>RWMutex = free_mutex, Id = bid, CommitInfo = ex_commit cid OpCreate, Older = [],
      Segment = Some 5, Count = rows\<rparr>"

definition ex_catalog :: Catalog where
  "ex_catalog = \<lparr>Sequence = \<lparr>nextBlockId = 2, nextUncommitId = 100\<rparr>, Store = []\<rparr>"

text \<open>Segment 5 with blocks 1 and 2, created at commits 3 and 4, holding \<open>r1\<close> and \<open>r2\<close> rows.\<close>

definition ex_segment :: "CommitInfo \<Rightarrow> CommitInfo list \<Rightarrow> uint64 \<Rightarrow> uint64 \<Rightarrow> Segment" where
  "ex_segment c older r1 r2 =
     \<lparr>RWMutex = free_mutex, Id = 5, CommitInfo = c, Older = older,
      Table = Some ex_table, Catalog = Some (),
      IdIndex = Some [1 \<mapsto> 0, 2 \<mapsto> 1],
      BlockSet = [ex_block 1 3 r1, ex_block 2 4 r2]\<rparr>"

definition ex_full :: Segment where
  "ex_full = ex_segment (ex_commit 2 OpCreate) [] 4 4"

definition ex_infull :: Segment where
  "ex_infull = ex_segment (ex_commit 2 OpCreate) [] 4 1"

definition ex_sorted :: Segment where
  "ex_sorted = ex_segment (ex_commit 10 OpUpgradeSorted) [ex_commit 2 OpCreate] 4 4"

text \<open>
  The full segment again, its older block carrying an applied index; and the segment
  before any block was created.
\<close>

definition ex_applied :: Segment where
  "ex_applied =
     ex_full\<lparr>BlockSet :=
       [(ex_block 1 3 4)\<lparr>CommitInfo :=
           (ex_commit 3 OpCreate)\<lparr>AppliedIndex := Some \<lparr>ExternalIndex.Id = SimpleBatchId 30\<rparr>\<rparr>\<rparr>,
        ex_block 2 4 4]\<rparr>"

definition ex_empty :: Segment where
  "ex_empty = ex_full\<lparr>IdIndex := Some Map.empty, BlockSet := []\<rparr>"

subsection \<open>What \<open>rebuild\<close> and the decoder compute\<close>

text \<open>
  The index and the catalog that the loop of \<open>rebuild\<close> builds from the block ids,
  the segment it leaves, and the segment that decoding into a fresh one gives.
\<close>

fun idx_of :: "nat \<Rightarrow> uint64 list \<Rightarrow> (uint64 \<rightharpoonup> nat) \<Rightarrow> (uint64 \<rightharpoonup> nat)" where
  "idx_of i [] idx = idx"
| "idx_of i (k # ks) idx = idx_of (Suc i) ks (idx(k \<mapsto> i))"

fun seq_of :: "uint64 list \<Rightarrow> Catalog \<Rightarrow> Catalog" where
  "seq_of [] cat = cat"
| "seq_of (k # ks) cat = seq_of ks (TryUpdateBlockId cat k)"

definition rebuilt :: "Segment \<Rightarrow> Table \<Rightarrow> Segment" where
  "rebuilt e table =
     e\<lparr>Catalog := Table.Catalog table, Table := Some table,
       BlockSet := map (\<lambda>b. Block_rebuild b (Id e)) (BlockSet e),
       IdIndex := Some (idx_of 0 (map Id (BlockSet e)) Map.empty)\<rparr>"

definition decoded :: "Segment \<Rightarrow> Segment" where
  "decoded e =
     zero_Segment\<lparr>Id := Id e, CommitInfo := CommitInfo e, Older := Older e,
       BlockSet := map Block_Unmarshal (map Block_Marshal (BlockSet e))\<rparr>"

section \<open>Properties\<close>

subsection \<open>Outcomes, locks and machine integers\<close>

lemma bind_Returns [simp]: "bind (Returns x) f = f x"
  by (simp add: bind_def)

lemma bind_Panics [simp]: "bind (Panics s) f = Panics s"
  by (simp add: bind_def)

lemma bind_Blocks [simp]: "bind Blocks f = Blocks"
  by (simp add: bind_def)

lemma bind_eq_Returns:
  "(bind m f = Returns y) = (\<exists>x. m = Returns x \<and> f x = Returns y)"
  by (cases m) simp_all

text \<open>\<open>int(x)\<close> of a \<open>uint64\<close> against a length: the two's complement reading.\<close>

lemma sint_nonneg_uint:
  fixes w :: uint64
  assumes "0 \<le> sint w"
  shows "sint w = uint w"
proof -
  have u: "0 \<le> uint w" "uint w < 18446744073709551616"
    using uint_lt2p [of w] by simp_all
  have s: "sint w = (uint w + 9223372036854775808) mod 18446744073709551616 - 9223372036854775808"
    by (simp add: sint_uint signed_take_bit_eq_take_bit_shift take_bit_eq_mod)
  show ?thesis
  proof (cases "uint w < 9223372036854775808")
    case True
    then have "(uint w + 9223372036854775808) mod 18446744073709551616 = uint w + 9223372036854775808"
      using u by (intro mod_pos_pos_trivial) simp_all
    then show ?thesis using s by simp
  next
    case False
    have "uint w + 9223372036854775808 = uint w - 9223372036854775808 + 18446744073709551616"
      by arith
    then have "(uint w + 9223372036854775808) mod 18446744073709551616
         = (uint w - 9223372036854775808 + 18446744073709551616) mod 18446744073709551616"
      by (rule arg_cong)
    also have "\<dots> = (uint w - 9223372036854775808) mod 18446744073709551616"
      by (rule mod_add_self2)
    also have "\<dots> = uint w - 9223372036854775808"
      using u False by (intro mod_pos_pos_trivial) simp_all
    finally show ?thesis using s assms u by simp
  qed
qed

lemma sint_small_uint:
  fixes w :: uint64
  assumes "uint w < 9223372036854775808"
  shows "sint w = uint w"
proof -
  have u: "0 \<le> uint w" by simp
  have s: "sint w = (uint w + 9223372036854775808) mod 18446744073709551616 - 9223372036854775808"
    by (simp add: sint_uint signed_take_bit_eq_take_bit_shift take_bit_eq_mod)
  have "(uint w + 9223372036854775808) mod 18446744073709551616 = uint w + 9223372036854775808"
    using u assms by (intro mod_pos_pos_trivial) simp_all
  then show ?thesis using s by simp
qed

lemma len_eq_sint_imp:
  fixes w :: uint64
  assumes "int n = sint w"
  shows "n = unat w"
proof -
  have "0 \<le> sint w" using assms [symmetric] by simp
  then have "int n = uint w" using assms sint_nonneg_uint [of w] by simp
  then have "nat (int n) = nat (uint w)" by (rule arg_cong)
  then show ?thesis by simp
qed

lemma len_eq_unat:
  fixes w :: uint64
  assumes "n < 2 ^ 63"
  shows "(int n = sint w) = (n = unat w)"
proof
  assume "int n = sint w" then show "n = unat w" by (rule len_eq_sint_imp)
next
  assume e: "n = unat w"
  have p: "(2::nat) ^ 63 = 9223372036854775808" by simp
  have "unat w < 9223372036854775808" using assms e p by simp
  then have "int (unat w) < int 9223372036854775808" by (simp only: of_nat_less_iff)
  then have "uint w < 9223372036854775808" by simp
  then have "sint w = uint w" by (rule sint_small_uint)
  then show "int n = sint w" using e by simp
qed

subsection \<open>The paths through \<open>Upgrade\<close>\<close>

lemma RLock_free: "\<not> writer (RWMutex e) \<Longrightarrow> RLock e = Returns (rlocked e)"
  by (simp add: RLock_def rlocked_def)

lemma RLock_held: "writer (RWMutex e) \<Longrightarrow> RLock e = Blocks"
  by (simp add: RLock_def)

lemma RUnlock_rlocked: "RUnlock (rlocked e) = Returns e"
  by (simp add: RUnlock_def rlocked_def)

lemma rlocked_fields [simp]:
  "Id (rlocked e) = Id e" "CommitInfo (rlocked e) = CommitInfo e" "Older (rlocked e) = Older e"
  by (simp_all add: rlocked_def)

lemma rlocked_Segment [simp]:
  "Table (rlocked e) = Table e" "Segment.Catalog (rlocked e) = Segment.Catalog e"
  "IdIndex (rlocked e) = IdIndex e" "BlockSet (rlocked e) = BlockSet e"
  by (simp_all add: rlocked_def)

lemma IsSorted_rlocked [simp]: "IsSorted (rlocked e) = IsSorted e"
  by (simp add: IsSorted_def)

lemma HasMaxBlocks_rlocked [simp]: "HasMaxBlocks (rlocked e) = HasMaxBlocks e"
  by (simp add: HasMaxBlocks_def split: option.splits)

lemma full_loop_all:
  "Table e = Some t \<Longrightarrow>
   full_loop e blks = Returns (list_all (IsFull (BlockMaxRows (Schema t))) blks)"
  by (induction blks) (simp_all add: Block_IsFull_def)

lemma HasMaxBlocks_sorted: "IsSorted e \<Longrightarrow> HasMaxBlocks e = Returns True"
  by (simp add: HasMaxBlocks_def)

lemma HasMaxBlocks_open:
  "\<not> IsSorted e \<Longrightarrow> Table e = Some t \<Longrightarrow>
   HasMaxBlocks e = Returns (int (length (BlockSet e)) = sint (SegmentMaxBlocks (Schema t)))"
  by (simp add: HasMaxBlocks_def)

lemma HasMaxBlocks_nil: "\<not> IsSorted e \<Longrightarrow> Table e = None \<Longrightarrow> HasMaxBlocks e = Panics nil_deref"
  by (simp add: HasMaxBlocks_def)

lemma Upgrade_not_max:
  assumes "\<not> IsSorted e" "Table e = Some t" "\<not> writer (RWMutex e)"
    and "int (length (BlockSet e)) \<noteq> sint (SegmentMaxBlocks (Schema t))"
  shows "Upgrade cat e tranId exIndice autoCommit = Returns (cat, e, Some UpgradeInfullSegmentErr)"
  using assms by (simp add: Upgrade_def RLock_free HasMaxBlocks_open RUnlock_rlocked)

lemma Upgrade_sorted:
  assumes "IsSorted e" "\<not> writer (RWMutex e)"
  shows "Upgrade cat e tranId exIndice autoCommit = Returns (cat, rlocked e, Some UpgradeNotNeededErr)"
  using assms by (simp add: Upgrade_def RLock_free HasMaxBlocks_sorted)

lemma Upgrade_not_full:
  assumes "\<not> IsSorted e" "Table e = Some t" "\<not> writer (RWMutex e)"
    and "int (length (BlockSet e)) = sint (SegmentMaxBlocks (Schema t))"
    and "\<not> list_all (IsFull (BlockMaxRows (Schema t))) (BlockSet e)"
  shows "Upgrade cat e tranId exIndice autoCommit =
           Returns (cat, rlocked e, Some UpgradeInfullSegmentErr)"
  using assms
  by (simp add: Upgrade_def RLock_free HasMaxBlocks_open full_loop_all [where t = t])

lemma Lock_free:
  "\<not> writer (RWMutex e) \<Longrightarrow> readers (RWMutex e) = 0 \<Longrightarrow> Lock e = Returns (wlocked e)"
  by (simp add: Lock_def wlocked_def)

lemma Lock_held: "writer (RWMutex e) \<or> 0 < readers (RWMutex e) \<Longrightarrow> Lock e = Blocks"
  by (simp add: Lock_def)

lemma mutex_unlock: "\<not> writer m \<Longrightarrow> m\<lparr>writer := True\<rparr>\<lparr>writer := False\<rparr> = m"
  by (cases m) simp

lemma Unlock_wlocked: "\<not> writer (RWMutex e) \<Longrightarrow> Unlock (wlocked e) = Returns e"
  by (simp add: Unlock_def wlocked_def mutex_unlock)

lemma Unlock_wlocked_commit:
  "\<not> writer (RWMutex e) \<Longrightarrow>
   Unlock ((wlocked e)\<lparr>CommitInfo := c, Older := cs\<rparr>) = Returns (e\<lparr>CommitInfo := c, Older := cs\<rparr>)"
  by (simp add: Unlock_def wlocked_def mutex_unlock)

lemma wlocked_fields [simp]:
  "Id (wlocked e) = Id e" "CommitInfo (wlocked e) = CommitInfo e" "Older (wlocked e) = Older e"
  by (simp_all add: wlocked_def)

lemma wlocked_Segment [simp]:
  "Table (wlocked e) = Table e" "Segment.Catalog (wlocked e) = Segment.Catalog e"
  "IdIndex (wlocked e) = IdIndex e" "BlockSet (wlocked e) = BlockSet e"
  by (simp_all add: wlocked_def)

lemma calcAppliedIndex_wlocked [simp]: "calcAppliedIndex (wlocked e) = calcAppliedIndex e"
  by (simp add: calcAppliedIndex_def)

lemma new_cInfo_wlocked [simp]: "new_cInfo (wlocked e) tranId newOp exIndice = new_cInfo e tranId newOp exIndice"
  unfolding new_cInfo_def calcAppliedIndex_wlocked by (rule refl)

lemma new_cInfo_ids:
  "new_cInfo e tranId newOp exIndice = Returns c \<Longrightarrow>
   CommitId c = tranId \<and> TranId c = tranId \<and> Op c = newOp"
  by (auto simp: new_cInfo_def Let_def split: option.splits list.splits prod.splits if_splits)

lemma BaseEntry_Marshal_Segment:
  "BaseEntry_Marshal (BaseEntry.truncate (e :: Segment)) = BaseEntry_Marshal e"
  by (simp add: BaseEntry_Marshal_def BaseEntry.truncate_def)

lemma ToLogEntry_Upgrade:
  "Table e = Some t \<Longrightarrow>
   ToLogEntry e ETUpgradeSegment =
     Returns \<lparr>Meta_Type = Some ETUpgradeSegment,
       Payload = Some (SegmentLogEntry_bytes (BaseEntry_Marshal e) (Id t))\<rparr>"
  by (simp add: ToLogEntry_def toLogEntry_def segmentLogEntry_Marshal_def GetEmptyEntry_def
      BaseEntry_Marshal_Segment)

lemma Upgrade_success:
  assumes "readers (RWMutex e) = 0" "\<not> writer (RWMutex e)" "Table e = Some t"
    and "int (length (BlockSet e)) = sint (SegmentMaxBlocks (Schema t))"
    and "list_all (IsFull (BlockMaxRows (Schema t))) (BlockSet e)"
    and "Op (CommitInfo e) = OpCreate"
    and "new_cInfo e tranId OpUpgradeSorted exIndice = Returns cInfo"
    and "CommitId (CommitInfo e) < tranId"
    and "autoCommit \<longrightarrow> Table.Catalog t \<noteq> None"
  shows "Upgrade cat e tranId exIndice autoCommit =
           Returns (if autoCommit
                    then logged cat \<lparr>Meta_Type = Some ETUpgradeSegment,
                           Payload = Some (SegmentLogEntry_bytes
                             (BaseEntry_Marshal (upgraded e cInfo)) (Id t))\<rparr>
                    else cat,
                    upgraded e cInfo, None)"
proof -
  have s: "\<not> IsSorted e" using assms(6) by (simp add: IsSorted_def)
  have c: "CommitId cInfo = tranId" using new_cInfo_ids [OF assms(7)] by simp
  have n: "onNewCommit (wlocked e) cInfo = Returns ((wlocked e)\<lparr>CommitInfo := cInfo, Older := CommitInfo e # Older e\<rparr>)"
    using assms(8) c by (simp add: onNewCommit_def)
  show ?thesis
    using assms s n
    by (auto simp: Upgrade_def RLock_free HasMaxBlocks_open full_loop_all [where t = t]
        RUnlock_rlocked Lock_free Unlock_wlocked_commit upgraded_def logged_def Commit_def
        ToLogEntry_Upgrade BaseEntry_Marshal_def)
qed

lemma Upgrade_not_create:
  assumes "readers (RWMutex e) = 0" "\<not> writer (RWMutex e)" "Table e = Some t"
    and "int (length (BlockSet e)) = sint (SegmentMaxBlocks (Schema t))"
    and "list_all (IsFull (BlockMaxRows (Schema t))) (BlockSet e)"
    and "Op (CommitInfo e) = OpSoftDelete"
  shows "Upgrade cat e tranId exIndice autoCommit = Returns (cat, e, Some UpgradeNotNeededErr)"
proof -
  have s: "\<not> IsSorted e" using assms(6) by (simp add: IsSorted_def)
  show ?thesis
    using assms s
    by (simp add: Upgrade_def RLock_free HasMaxBlocks_open full_loop_all [where t = t]
        RUnlock_rlocked Lock_free Unlock_wlocked)
qed

lemma Upgrade_blocked_reader:
  assumes "writer (RWMutex e)"
  shows "Upgrade cat e tranId exIndice autoCommit = Blocks"
  using assms by (simp add: Upgrade_def RLock_held)

lemma Upgrade_nil_table:
  assumes "\<not> writer (RWMutex e)" "\<not> IsSorted e" "Table e = None"
  shows "Upgrade cat e tranId exIndice autoCommit = Panics nil_deref"
  using assms by (simp add: Upgrade_def RLock_free HasMaxBlocks_nil)

lemma Upgrade_blocked_writer:
  assumes "\<not> writer (RWMutex e)" "0 < readers (RWMutex e)" "\<not> IsSorted e" "Table e = Some t"
    and "int (length (BlockSet e)) = sint (SegmentMaxBlocks (Schema t))"
    and "list_all (IsFull (BlockMaxRows (Schema t))) (BlockSet e)"
  shows "Upgrade cat e tranId exIndice autoCommit = Blocks"
  using assms
  by (simp add: Upgrade_def RLock_free HasMaxBlocks_open full_loop_all [where t = t]
      RUnlock_rlocked Lock_held)

lemma Upgrade_create_path:
  assumes "readers (RWMutex e) = 0" "\<not> writer (RWMutex e)" "Table e = Some t"
    and "int (length (BlockSet e)) = sint (SegmentMaxBlocks (Schema t))"
    and "list_all (IsFull (BlockMaxRows (Schema t))) (BlockSet e)"
    and "Op (CommitInfo e) = OpCreate"
  shows "Upgrade cat e tranId exIndice autoCommit =
           bind (new_cInfo e tranId OpUpgradeSorted exIndice) (\<lambda>cInfo.
           bind (onNewCommit (wlocked e) cInfo) (\<lambda>e4.
             if \<not> autoCommit then bind (Unlock e4) (\<lambda>e5. Returns (cat, e5, None))
             else (case Table.Catalog t of
                     None \<Rightarrow> Panics nil_deref
                   | Some _ \<Rightarrow>
                       bind (Commit cat (ToLogEntry e4 ETUpgradeSegment)) (\<lambda>cat1.
                       bind (Unlock e4) (\<lambda>e5. Returns (cat1, e5, None))))))"
proof -
  have s: "\<not> IsSorted e" using assms(6) by (simp add: IsSorted_def)
  have t: "\<And>c. onNewCommit (wlocked e) c = Returns e4 \<Longrightarrow> Table e4 = Some t" for e4
    using assms(3) by (auto simp: onNewCommit_def split: if_splits)
  have "Upgrade cat e tranId exIndice autoCommit =
           bind (new_cInfo e tranId OpUpgradeSorted exIndice) (\<lambda>cInfo.
           bind (onNewCommit (wlocked e) cInfo) (\<lambda>e4.
             if \<not> autoCommit then bind (Unlock e4) (\<lambda>e5. Returns (cat, e5, None))
             else (case Table e4 of
                     None \<Rightarrow> Panics nil_deref
                   | Some t \<Rightarrow>
                     (case Table.Catalog t of
                     None \<Rightarrow> Panics nil_deref
                   | Some _ \<Rightarrow>
                       bind (Commit cat (ToLogEntry e4 ETUpgradeSegment)) (\<lambda>cat1.
                       bind (Unlock e4) (\<lambda>e5. Returns (cat1, e5, None)))))))"
    using assms s
    by (simp add: Upgrade_def RLock_free HasMaxBlocks_open full_loop_all [where t = t]
        RUnlock_rlocked Lock_free)
  also have "\<dots> = bind (new_cInfo e tranId OpUpgradeSorted exIndice) (\<lambda>cInfo.
           bind (onNewCommit (wlocked e) cInfo) (\<lambda>e4.
             if \<not> autoCommit then bind (Unlock e4) (\<lambda>e5. Returns (cat, e5, None))
             else (case Table.Catalog t of
                     None \<Rightarrow> Panics nil_deref
                   | Some _ \<Rightarrow>
                       bind (Commit cat (ToLogEntry e4 ETUpgradeSegment)) (\<lambda>cat1.
                       bind (Unlock e4) (\<lambda>e5. Returns (cat1, e5, None))))))"
  proof (cases "new_cInfo e tranId OpUpgradeSorted exIndice")
    case (Returns c)
    show ?thesis
    proof (cases "onNewCommit (wlocked e) c")
      case r: (Returns e4)
      show ?thesis using Returns r t [OF r] by simp
    qed (simp_all add: Returns)
  qed simp_all
  finally show ?thesis .
qed

lemma Upgrade_returns_None:
  assumes "Upgrade cat e tranId exIndice autoCommit = Returns (cat', e', None)"
  shows "\<exists>t cInfo. readers (RWMutex e) = 0 \<and> \<not> writer (RWMutex e) \<and> Table e = Some t \<and>
           int (length (BlockSet e)) = sint (SegmentMaxBlocks (Schema t)) \<and>
           list_all (IsFull (BlockMaxRows (Schema t))) (BlockSet e) \<and>
           Op (CommitInfo e) = OpCreate \<and>
           new_cInfo e tranId OpUpgradeSorted exIndice = Returns cInfo \<and>
           CommitId (CommitInfo e) < tranId \<and>
           (autoCommit \<longrightarrow> Table.Catalog t \<noteq> None)"
proof (cases "writer (RWMutex e)")
  case True
  then show ?thesis using assms Upgrade_blocked_reader by simp
next
  case w: False
  show ?thesis
  proof (cases "IsSorted e")
    case True
    then show ?thesis using assms w Upgrade_sorted by simp
  next
    case s: False
    show ?thesis
    proof (cases "Table e")
      case None
      then show ?thesis using assms w s Upgrade_nil_table by simp
    next
      case (Some t)
      show ?thesis
      proof (cases "int (length (BlockSet e)) = sint (SegmentMaxBlocks (Schema t))")
        case False
        then show ?thesis using assms w s Some Upgrade_not_max by simp
      next
        case m: True
        show ?thesis
        proof (cases "list_all (IsFull (BlockMaxRows (Schema t))) (BlockSet e)")
          case False
          then show ?thesis using assms w s Some m Upgrade_not_full by simp
        next
          case f: True
          show ?thesis
          proof (cases "readers (RWMutex e) = 0")
            case False
            then show ?thesis using assms w s Some m f Upgrade_blocked_writer [of e t] by simp
          next
            case r: True
            show ?thesis
            proof (cases "Op (CommitInfo e)")
              case OpUpgradeSorted
              then show ?thesis using s by (simp add: IsSorted_def)
            next
              case OpSoftDelete
              then show ?thesis using assms w s Some m f r Upgrade_not_create [of e t] by simp
            next
              case c: OpCreate
              note p = Upgrade_create_path [OF r w Some m f c, of cat tranId exIndice autoCommit]
              from assms [unfolded p bind_eq_Returns] have "\<exists>cInfo. new_cInfo e tranId OpUpgradeSorted exIndice = Returns cInfo \<and>
                (\<exists>e4. onNewCommit (wlocked e) cInfo = Returns e4 \<and>
                  (if \<not> autoCommit then bind (Unlock e4) (\<lambda>e5. Returns (cat, e5, None))
                   else (case Table.Catalog t of
                     None \<Rightarrow> Panics nil_deref
                   | Some _ \<Rightarrow>
                       bind (Commit cat (ToLogEntry e4 ETUpgradeSegment)) (\<lambda>cat1.
                       bind (Unlock e4) (\<lambda>e5. Returns (cat1, e5, None))))) = Returns (cat', e', None :: error option))" .
              then obtain cInfo e4 where
                n: "new_cInfo e tranId OpUpgradeSorted exIndice = Returns cInfo"
                and o: "onNewCommit (wlocked e) cInfo = Returns e4"
                and k: "(if \<not> autoCommit then bind (Unlock e4) (\<lambda>e5. Returns (cat, e5, None))
                   else (case Table.Catalog t of
                     None \<Rightarrow> Panics nil_deref
                   | Some _ \<Rightarrow>
                       bind (Commit cat (ToLogEntry e4 ETUpgradeSegment)) (\<lambda>cat1.
                       bind (Unlock e4) (\<lambda>e5. Returns (cat1, e5, None))))) = Returns (cat', e', None :: error option)"
                by blast
              have "CommitId (CommitInfo e) < tranId"
                using o new_cInfo_ids [OF n] by (auto simp: onNewCommit_def split: if_splits)
              moreover have "autoCommit \<longrightarrow> Table.Catalog t \<noteq> None"
                using k by (cases "Table.Catalog t") (auto split: if_splits)
              ultimately show ?thesis using r w Some m f c n by simp
            qed
          qed
        qed
      qed
    qed
  qed
qed

lemma Upgrade_returns_error:
  assumes "Upgrade cat e tranId exIndice autoCommit = Returns (cat', e', Some err)"
  shows "cat' = cat \<and> (e' = e \<or> e' = rlocked e)"
proof (cases "writer (RWMutex e)")
  case True
  then show ?thesis using assms Upgrade_blocked_reader by simp
next
  case w: False
  show ?thesis
  proof (cases "IsSorted e")
    case True
    then show ?thesis using assms w Upgrade_sorted by simp
  next
    case s: False
    show ?thesis
    proof (cases "Table e")
      case None
      then show ?thesis using assms w s Upgrade_nil_table by simp
    next
      case (Some t)
      show ?thesis
      proof (cases "int (length (BlockSet e)) = sint (SegmentMaxBlocks (Schema t))")
        case False
        then show ?thesis using assms w s Some Upgrade_not_max by simp
      next
        case m: True
        show ?thesis
        proof (cases "list_all (IsFull (BlockMaxRows (Schema t))) (BlockSet e)")
          case False
          then show ?thesis using assms w s Some m Upgrade_not_full by simp
        next
          case f: True
          show ?thesis
          proof (cases "readers (RWMutex e) = 0")
            case False
            then show ?thesis using assms w s Some m f Upgrade_blocked_writer [of e t] by simp
          next
            case r: True
            show ?thesis
            proof (cases "Op (CommitInfo e)")
              case OpUpgradeSorted
              then show ?thesis using s by (simp add: IsSorted_def)
            next
              case OpSoftDelete
              then show ?thesis using assms w s Some m f r Upgrade_not_create [of e t] by simp
            next
              case c: OpCreate
              note p = Upgrade_create_path [OF r w Some m f c, of cat tranId exIndice autoCommit]
              from assms p show ?thesis
                by (auto simp: bind_eq_Returns split: if_splits option.splits)
            qed
          qed
        qed
      qed
    qed
  qed
qed

lemmas ex_defs = ex_full_def ex_infull_def ex_sorted_def ex_segment_def ex_block_def
  ex_table_def ex_commit_def ex_catalog_def zero_CommitInfo_def free_mutex_def

lemma rlocked_chain [simp]: "commit_chain (rlocked e) = commit_chain e"
  by (simp add: commit_chain_def)

lemma list_all_full_iff:
  "list_all (IsFull c) blks = (\<forall>blk\<in>set blks. IsFull c blk)"
  by (simp add: list_all_iff)

subsection \<open>Upgrade of a segment that is not full\<close>

text \<open>
  Claim C2. A segment that is not sorted is refused by \<open>Upgrade\<close> with
  \<open>UpgradeInfullSegmentErr\<close> when its block count differs from the schema's
  \<open>SegmentMaxBlocks\<close>, and also when the count equals the maximum but some block is
  not full. In both cases the segment makes no transition: it stays unsorted, its
  commit chain, its blocks and its index are what they were, and the catalog is
  untouched. The call is made with the lock not held by a writer (it would wait
  otherwise). In the first case the segment is returned as it was; in the second the
  read lock taken at entry is still held at the return.
\<close>

theorem Upgrade_infull_segment:
  assumes "\<not> IsSorted e" and "Table e = Some t" and "\<not> writer (RWMutex e)"
    and "length (BlockSet e) \<noteq> unat (SegmentMaxBlocks (Schema t)) \<or>
         (length (BlockSet e) = unat (SegmentMaxBlocks (Schema t)) \<and>
          (\<exists>blk\<in>set (BlockSet e). \<not> IsFull (BlockMaxRows (Schema t)) blk))"
  shows "\<exists>e'. Upgrade cat e tranId exIndice autoCommit =
                 Returns (cat, e', Some UpgradeInfullSegmentErr) \<and>
              (e' = e \<or> e' = rlocked e) \<and>
              IsSorted e' = IsSorted e \<and> commit_chain e' = commit_chain e \<and>
              BlockSet e' = BlockSet e \<and> IdIndex e' = IdIndex e"
proof (cases "int (length (BlockSet e)) = sint (SegmentMaxBlocks (Schema t))")
  case False
  then show ?thesis using assms(1-3) Upgrade_not_max [of e t cat tranId exIndice autoCommit] by simp
next
  case True
  then have "length (BlockSet e) = unat (SegmentMaxBlocks (Schema t))"
    by (rule len_eq_sint_imp)
  then have "\<not> list_all (IsFull (BlockMaxRows (Schema t))) (BlockSet e)"
    using assms(4) by (simp add: list_all_full_iff)
  then show ?thesis
    using assms(1-3) True Upgrade_not_full [of e t cat tranId exIndice autoCommit] by simp
qed

theorem Upgrade_infull_segment_witness:
  "\<not> IsSorted ex_infull \<and> Table ex_infull = Some ex_table \<and> \<not> writer (RWMutex ex_infull) \<and>
   length (BlockSet ex_infull) = unat (SegmentMaxBlocks (Schema ex_table)) \<and>
   (\<exists>blk\<in>set (BlockSet ex_infull). \<not> IsFull (BlockMaxRows (Schema ex_table)) blk) \<and>
   (\<exists>e'. Upgrade ex_catalog ex_infull 9 None False =
            Returns (ex_catalog, e', Some UpgradeInfullSegmentErr) \<and>
         (e' = ex_infull \<or> e' = rlocked ex_infull) \<and>
         IsSorted e' = IsSorted ex_infull \<and> commit_chain e' = commit_chain ex_infull \<and>
         BlockSet e' = BlockSet ex_infull \<and> IdIndex e' = IdIndex ex_infull)"
proof -
  have h1: "\<not> IsSorted ex_infull" by (simp add: IsSorted_def ex_defs)
  have h2: "Table ex_infull = Some ex_table" by (simp add: ex_infull_def ex_segment_def)
  have h3: "\<not> writer (RWMutex ex_infull)" by (simp add: ex_defs)
  have h4: "length (BlockSet ex_infull) = unat (SegmentMaxBlocks (Schema ex_table))"
    by (simp add: ex_defs)
  have h5: "\<exists>blk\<in>set (BlockSet ex_infull). \<not> IsFull (BlockMaxRows (Schema ex_table)) blk"
    by (simp add: ex_defs IsFull_def word_le_nat_alt)
  from h4 h5 have h45: "length (BlockSet ex_infull) \<noteq> unat (SegmentMaxBlocks (Schema ex_table)) \<or>
         (length (BlockSet ex_infull) = unat (SegmentMaxBlocks (Schema ex_table)) \<and>
          (\<exists>blk\<in>set (BlockSet ex_infull). \<not> IsFull (BlockMaxRows (Schema ex_table)) blk))"
    by blast
  show ?thesis
    using h1 h2 h3 h4 h5 Upgrade_infull_segment [OF h1 h2 h3 h45, of ex_catalog 9 None False]
    by blast
qed

subsection \<open>Upgrade of a full segment, and the second call\<close>

lemma new_cInfo_returns:
  "exIndice \<noteq> Some [] \<Longrightarrow> \<exists>c. new_cInfo e tranId newOp exIndice = Returns c"
  by (auto simp: new_cInfo_def Let_def split: option.splits list.splits prod.splits)

lemma upgraded_chain: "commit_chain (upgraded e c) = commit_chain e @ [c]"
  by (simp add: upgraded_def commit_chain_def)

lemma upgraded_fields [simp]:
  "CommitInfo (upgraded e c) = c" "BlockSet (upgraded e c) = BlockSet e"
  "IdIndex (upgraded e c) = IdIndex e" "RWMutex (upgraded e c) = RWMutex e"
  "Table (upgraded e c) = Table e" "Id (upgraded e c) = Id e"
  by (simp_all add: upgraded_def)

lemma free_mutex_iff: "(m = free_mutex) = (readers m = 0 \<and> \<not> writer m)"
  by (cases m) (simp add: free_mutex_def)

text \<open>
  Claim C3. A segment with exactly \<open>SegmentMaxBlocks\<close> blocks, all full, whose
  current commit operation is \<open>OpCreate\<close>: the first \<open>Upgrade\<close> succeeds and appends
  one commit record, with operation \<open>OpUpgradeSorted\<close>; a second \<open>Upgrade\<close>, with
  any arguments, returns \<open>UpgradeNotNeededErr\<close> and appends nothing. The first call
  is one that completes: the lock is free, the transaction id is newer than the
  current commit id, the index slice is nil or has an element, and the catalog is
  attached when the change is to be logged.
\<close>

theorem Upgrade_twice:
  assumes "Table e = Some t"
    and "length (BlockSet e) = unat (SegmentMaxBlocks (Schema t))"
    and "length (BlockSet e) < 2 ^ 63"
    and "\<forall>blk\<in>set (BlockSet e). IsFull (BlockMaxRows (Schema t)) blk"
    and "Op (CommitInfo e) = OpCreate"
    and "RWMutex e = free_mutex"
    and "exIndice \<noteq> Some []"
    and "CommitId (CommitInfo e) < tranId"
    and "autoCommit \<longrightarrow> Table.Catalog t \<noteq> None"
  shows "\<exists>cat1 e1 e2.
           Upgrade cat e tranId exIndice autoCommit = Returns (cat1, e1, None) \<and>
           Op (CommitInfo e1) = OpUpgradeSorted \<and>
           commit_chain e1 = commit_chain e @ [CommitInfo e1] \<and>
           Upgrade cat1 e1 tranId' exIndice' autoCommit' =
             Returns (cat1, e2, Some UpgradeNotNeededErr) \<and>
           commit_chain e2 = commit_chain e1"
proof -
  have m: "int (length (BlockSet e)) = sint (SegmentMaxBlocks (Schema t))"
    by (rule iffD2 [OF len_eq_unat [OF assms(3)] assms(2)])
  have f: "list_all (IsFull (BlockMaxRows (Schema t))) (BlockSet e)"
    using assms(4) by (simp add: list_all_full_iff)
  have l: "readers (RWMutex e) = 0" "\<not> writer (RWMutex e)"
    using assms(6) by (simp_all add: free_mutex_def)
  obtain c where c: "new_cInfo e tranId OpUpgradeSorted exIndice = Returns c"
    using new_cInfo_returns [OF assms(7)] by blast
  note u = Upgrade_success [OF l assms(1) m f assms(5) c assms(8,9), of cat]
  have o: "Op c = OpUpgradeSorted" using new_cInfo_ids [OF c] by simp
  have s: "IsSorted (upgraded e c)" using o by (simp add: IsSorted_def)
  have w: "\<not> writer (RWMutex (upgraded e c))" using l by simp
  note v = Upgrade_sorted [OF s w]
  show ?thesis
    using u v o by (simp add: upgraded_chain)
qed

theorem Upgrade_twice_witness:
  "Table ex_full = Some ex_table \<and>
   length (BlockSet ex_full) = unat (SegmentMaxBlocks (Schema ex_table)) \<and>
   length (BlockSet ex_full) < 2 ^ 63 \<and>
   list_all (IsFull (BlockMaxRows (Schema ex_table))) (BlockSet ex_full) \<and>
   Op (CommitInfo ex_full) = OpCreate \<and> RWMutex ex_full = free_mutex \<and>
   CommitId (CommitInfo ex_full) < 10 \<and> Table.Catalog ex_table \<noteq> None \<and>
   (\<exists>cat1 e1 e2.
      Upgrade ex_catalog ex_full 10 None True = Returns (cat1, e1, None) \<and>
      Op (CommitInfo e1) = OpUpgradeSorted \<and>
      commit_chain e1 = commit_chain ex_full @ [CommitInfo e1] \<and>
      Upgrade cat1 e1 11 None True = Returns (cat1, e2, Some UpgradeNotNeededErr) \<and>
      commit_chain e2 = commit_chain e1)"
proof -
  have h1: "Table ex_full = Some ex_table" by (simp add: ex_full_def ex_segment_def)
  have h2: "length (BlockSet ex_full) = unat (SegmentMaxBlocks (Schema ex_table))"
    by (simp add: ex_defs)
  have h3: "length (BlockSet ex_full) < 2 ^ 63" by (simp add: ex_defs)
  have h4: "\<forall>blk\<in>set (BlockSet ex_full). IsFull (BlockMaxRows (Schema ex_table)) blk"
    by (simp add: ex_defs IsFull_def)
  have h5: "Op (CommitInfo ex_full) = OpCreate" by (simp add: ex_defs)
  have h6: "RWMutex ex_full = free_mutex" by (simp add: ex_full_def ex_segment_def)
  have h7: "(None :: ExternalIndex option list option) \<noteq> Some []" by simp
  have h8: "CommitId (CommitInfo ex_full) < 10" by (simp add: ex_defs word_less_nat_alt)
  have h9: "True \<longrightarrow> Table.Catalog ex_table \<noteq> None" by (simp add: ex_defs)
  show ?thesis
    using h1 h2 h3 h4 h5 h6 h8 h9
      Upgrade_twice [OF h1 h2 h3 h4 h5 h6 h7 h8 h9, of ex_catalog 11 None True]
    by (simp add: list_all_full_iff)
qed

subsection \<open>The indices of the new commit record\<close>

lemma calc_loop_found:
  "find (\<lambda>blk. snd (Block_GetAppliedIndex blk)) blks = Some b \<Longrightarrow>
   calc_loop blks r = Block_GetAppliedIndex b"
  by (induction blks arbitrary: r) (auto simp: Let_def split: if_splits)

lemma calc_loop_none:
  "find (\<lambda>blk. snd (Block_GetAppliedIndex blk)) blks = None \<Longrightarrow> \<not> snd r \<Longrightarrow>
   \<not> snd (calc_loop blks r)"
  by (induction blks arbitrary: r) (auto simp: Let_def split: if_splits)

lemma new_cInfo_None:
  "new_cInfo e tranId newOp None =
     Returns (zero_CommitInfo\<lparr>TranId := tranId, CommitId := tranId, Op := newOp,
       AppliedIndex :=
         (case find (\<lambda>blk. snd (Block_GetAppliedIndex blk)) (rev (BlockSet e)) of
            None \<Rightarrow> None
          | Some blk \<Rightarrow> Some \<lparr>ExternalIndex.Id = SimpleBatchId (fst (Block_GetAppliedIndex blk))\<rparr>)\<rparr>)"
proof -
  obtain n ok where r: "calc_loop (rev (BlockSet e)) (0, False) = (n, ok)"
    by (cases "calc_loop (rev (BlockSet e)) (0, False)")
  show ?thesis
  proof (cases "find (\<lambda>blk. snd (Block_GetAppliedIndex blk)) (rev (BlockSet e))")
    case None
    then have "\<not> snd (calc_loop (rev (BlockSet e)) (0, False))"
      by (rule calc_loop_none) simp
    then show ?thesis
      using None r by (simp add: new_cInfo_def calcAppliedIndex_def Let_def zero_CommitInfo_def)
  next
    case (Some b)
    then have p: "snd (Block_GetAppliedIndex b)"
      by (auto simp: find_Some_iff)
    have "calc_loop (rev (BlockSet e)) (0, False) = Block_GetAppliedIndex b"
      using Some by (rule calc_loop_found)
    then have g: "Block_GetAppliedIndex b = (n, ok)" using r by simp
    then have "ok" using p by simp
    then show ?thesis
      using Some g r by (simp add: new_cInfo_def calcAppliedIndex_def Let_def zero_CommitInfo_def)
  qed
qed

lemma new_cInfo_Some:
  "xs \<noteq> [] \<Longrightarrow>
   new_cInfo e tranId newOp (Some xs) =
     Returns (zero_CommitInfo\<lparr>TranId := tranId, CommitId := tranId, Op := newOp,
       ExternalIndex := hd xs, PrevIndex := (if 1 < length xs then xs ! 1 else None)\<rparr>)"
  by (cases xs; cases "tl xs") (auto simp: new_cInfo_def zero_CommitInfo_def)

text \<open>
  A slice that is allocated but empty is not nil: the code reads \<open>exIndice[0]\<close> and
  panics.
\<close>

lemma Upgrade_empty_indices:
  assumes "readers (RWMutex e) = 0" "\<not> writer (RWMutex e)" "Table e = Some t"
    and "int (length (BlockSet e)) = sint (SegmentMaxBlocks (Schema t))"
    and "list_all (IsFull (BlockMaxRows (Schema t))) (BlockSet e)"
    and "Op (CommitInfo e) = OpCreate"
  shows "Upgrade cat e tranId (Some []) autoCommit =
           Panics ''index out of range [0] with length 0''"
  by (simp add: Upgrade_create_path [OF assms] new_cInfo_def)

text \<open>
  Claim C4. In a successful \<open>Upgrade\<close>: when the caller passes indices, the new
  record's \<open>ExternalIndex\<close> is the first of them and its \<open>PrevIndex\<close> the second,
  if there is one; when the caller passes none (a nil slice), the record's
  \<open>AppliedIndex\<close> is found by scanning the blocks from the last position to the
  first and taking the first applied index that is there, and stays nil when no
  block has one.
\<close>

theorem Upgrade_commit_indices:
  assumes "Table e = Some t"
    and "length (BlockSet e) = unat (SegmentMaxBlocks (Schema t))"
    and "length (BlockSet e) < 2 ^ 63"
    and "\<forall>blk\<in>set (BlockSet e). IsFull (BlockMaxRows (Schema t)) blk"
    and "Op (CommitInfo e) = OpCreate"
    and "RWMutex e = free_mutex"
    and "exIndice \<noteq> Some []"
    and "CommitId (CommitInfo e) < tranId"
    and "autoCommit \<longrightarrow> Table.Catalog t \<noteq> None"
  shows "\<exists>cat' e'.
           Upgrade cat e tranId exIndice autoCommit = Returns (cat', e', None) \<and>
           (case exIndice of
              Some xs \<Rightarrow>
                ExternalIndex (CommitInfo e') = hd xs \<and>
                PrevIndex (CommitInfo e') = (if 1 < length xs then xs ! 1 else None) \<and>
                AppliedIndex (CommitInfo e') = None
            | None \<Rightarrow>
                ExternalIndex (CommitInfo e') = None \<and> PrevIndex (CommitInfo e') = None \<and>
                AppliedIndex (CommitInfo e') =
                  (case find (\<lambda>blk. snd (Block_GetAppliedIndex blk)) (rev (BlockSet e)) of
                     None \<Rightarrow> None
                   | Some blk \<Rightarrow>
                       Some \<lparr>ExternalIndex.Id = SimpleBatchId (fst (Block_GetAppliedIndex blk))\<rparr>))"
proof -
  have m: "int (length (BlockSet e)) = sint (SegmentMaxBlocks (Schema t))"
    by (rule iffD2 [OF len_eq_unat [OF assms(3)] assms(2)])
  have f: "list_all (IsFull (BlockMaxRows (Schema t))) (BlockSet e)"
    using assms(4) by (simp add: list_all_full_iff)
  have l: "readers (RWMutex e) = 0" "\<not> writer (RWMutex e)"
    using assms(6) by (simp_all add: free_mutex_def)
  show ?thesis
  proof (cases exIndice)
    case None
    note c = new_cInfo_None [of e tranId OpUpgradeSorted]
    note u = Upgrade_success [OF l assms(1) m f assms(5) c [folded None] assms(8,9), of cat]
    show ?thesis using u None by (simp add: zero_CommitInfo_def)
  next
    case (Some xs)
    then have x: "xs \<noteq> []" using assms(7) by simp
    note c = new_cInfo_Some [OF x, of e tranId OpUpgradeSorted]
    note u = Upgrade_success [OF l assms(1) m f assms(5) c [folded Some] assms(8,9), of cat]
    show ?thesis using u Some by (simp add: zero_CommitInfo_def)
  qed
qed

lemma ex_applied_find:
  "find (\<lambda>blk. snd (Block_GetAppliedIndex blk)) (rev (BlockSet ex_applied)) =
     Some ((ex_block 1 3 4)\<lparr>CommitInfo :=
           (ex_commit 3 OpCreate)\<lparr>AppliedIndex := Some \<lparr>ExternalIndex.Id = SimpleBatchId 30\<rparr>\<rparr>\<rparr>)"
  by (simp add: ex_applied_def ex_defs Block_GetAppliedIndex_def BaseEntry_GetAppliedIndex_def)

theorem Upgrade_commit_indices_witness:
  "Table ex_applied = Some ex_table \<and>
   length (BlockSet ex_applied) = unat (SegmentMaxBlocks (Schema ex_table)) \<and>
   length (BlockSet ex_applied) < 2 ^ 63 \<and>
   list_all (IsFull (BlockMaxRows (Schema ex_table))) (BlockSet ex_applied) \<and>
   Op (CommitInfo ex_applied) = OpCreate \<and> RWMutex ex_applied = free_mutex \<and>
   CommitId (CommitInfo ex_applied) < 10 \<and>
   (\<exists>cat' e'.
      Upgrade ex_catalog ex_applied 10 None False = Returns (cat', e', None) \<and>
      ExternalIndex (CommitInfo e') = None \<and> PrevIndex (CommitInfo e') = None \<and>
      AppliedIndex (CommitInfo e') = Some \<lparr>ExternalIndex.Id = SimpleBatchId 30\<rparr>)"
proof -
  have h1: "Table ex_applied = Some ex_table" by (simp add: ex_applied_def ex_full_def ex_segment_def)
  have h2: "length (BlockSet ex_applied) = unat (SegmentMaxBlocks (Schema ex_table))"
    by (simp add: ex_applied_def ex_defs)
  have h3: "length (BlockSet ex_applied) < 2 ^ 63" by (simp add: ex_applied_def ex_defs)
  have h4: "\<forall>blk\<in>set (BlockSet ex_applied). IsFull (BlockMaxRows (Schema ex_table)) blk"
    by (simp add: ex_applied_def ex_defs IsFull_def)
  have h5: "Op (CommitInfo ex_applied) = OpCreate" by (simp add: ex_applied_def ex_defs)
  have h6: "RWMutex ex_applied = free_mutex" by (simp add: ex_applied_def ex_full_def ex_segment_def)
  have h7: "(None :: ExternalIndex option list option) \<noteq> Some []" by simp
  have h8: "CommitId (CommitInfo ex_applied) < 10"
    by (simp add: ex_applied_def ex_defs word_less_nat_alt)
  have h9: "False \<longrightarrow> Table.Catalog ex_table \<noteq> None" by simp
  have g: "fst (Block_GetAppliedIndex ((ex_block 1 3 4)\<lparr>CommitInfo :=
           (ex_commit 3 OpCreate)\<lparr>AppliedIndex := Some \<lparr>ExternalIndex.Id = SimpleBatchId 30\<rparr>\<rparr>\<rparr>)) = 30"
    by (simp add: Block_GetAppliedIndex_def BaseEntry_GetAppliedIndex_def)
  show ?thesis
    using h1 h2 h3 h4 h5 h6 h8
      Upgrade_commit_indices [OF h1 h2 h3 h4 h5 h6 h7 h8 h9, of ex_catalog]
    by (simp add: list_all_full_iff ex_applied_find g)
qed

subsection \<open>What an error return leaves behind\<close>

lemma CreateBlock_blocked:
  assumes "Table e = Some t" "Table.Catalog t \<noteq> None"
    and "writer (RWMutex e) \<or> 0 < readers (RWMutex e)"
  shows "CreateBlock cat e tranId exIndex autoCommit = Blocks"
  using assms by (auto simp: CreateBlock_def newBlockEntry_def Lock_held split: prod.splits)

text \<open>
  Claim C10. When \<open>Upgrade\<close> returns an error the segment should be as it was.
  The commit chain, the blocks and the index are (\<open>Upgrade_returns_error\<close>), and on
  the first refusal so is the lock. The returns for a sorted segment and for a block
  that is not full come before \<open>RUnlock\<close>: the segment keeps one reader on its lock,
  and the next writer (here \<open>CreateBlock\<close>) waits for ever.
\<close>

theorem Upgrade_error_keeps_read_lock:
  "RWMutex ex_sorted = free_mutex \<and>
   Upgrade ex_catalog ex_sorted 11 None False =
     Returns (ex_catalog, rlocked ex_sorted, Some UpgradeNotNeededErr) \<and>
   RWMutex (rlocked ex_sorted) = \<lparr>readers = 1, writer = False\<rparr> \<and>
   CreateBlock ex_catalog (rlocked ex_sorted) 12 None False = Blocks \<and>
   RWMutex ex_infull = free_mutex \<and>
   Upgrade ex_catalog ex_infull 11 None False =
     Returns (ex_catalog, rlocked ex_infull, Some UpgradeInfullSegmentErr) \<and>
   RWMutex (rlocked ex_infull) = \<lparr>readers = 1, writer = False\<rparr> \<and>
   Upgrade ex_catalog (ex_full\<lparr>BlockSet := [ex_block 1 3 4]\<rparr>) 11 None False =
     Returns (ex_catalog, ex_full\<lparr>BlockSet := [ex_block 1 3 4]\<rparr>, Some UpgradeInfullSegmentErr)"
proof -
  have a: "RWMutex ex_sorted = free_mutex" "RWMutex ex_infull = free_mutex"
    by (simp_all add: ex_sorted_def ex_infull_def ex_segment_def)
  have b: "Upgrade ex_catalog ex_sorted 11 None False =
     Returns (ex_catalog, rlocked ex_sorted, Some UpgradeNotNeededErr)"
    by (rule Upgrade_sorted) (simp_all add: IsSorted_def ex_defs)
  have c: "RWMutex (rlocked ex_sorted) = \<lparr>readers = 1, writer = False\<rparr>"
    "RWMutex (rlocked ex_infull) = \<lparr>readers = 1, writer = False\<rparr>"
    by (simp_all add: rlocked_def ex_defs)
  have d: "CreateBlock ex_catalog (rlocked ex_sorted) 12 None False = Blocks"
  proof (rule CreateBlock_blocked [where t = ex_table])
    show "Table (rlocked ex_sorted) = Some ex_table"
      by (simp add: ex_sorted_def ex_segment_def)
    show "Table.Catalog ex_table \<noteq> None" by (simp add: ex_table_def)
    show "writer (RWMutex (rlocked ex_sorted)) \<or> 0 < readers (RWMutex (rlocked ex_sorted))"
      by (simp add: c)
  qed
  have e: "Upgrade ex_catalog ex_infull 11 None False =
     Returns (ex_catalog, rlocked ex_infull, Some UpgradeInfullSegmentErr)"
    by (rule Upgrade_not_full [where t = ex_table])
      (simp_all add: IsSorted_def IsFull_def ex_defs word_le_nat_alt)
  have f: "Upgrade ex_catalog (ex_full\<lparr>BlockSet := [ex_block 1 3 4]\<rparr>) 11 None False =
     Returns (ex_catalog, ex_full\<lparr>BlockSet := [ex_block 1 3 4]\<rparr>, Some UpgradeInfullSegmentErr)"
    by (rule Upgrade_not_max [where t = ex_table]) (simp_all add: IsSorted_def ex_defs)
  show ?thesis using a b c d e f by simp
qed

subsection \<open>The committed view\<close>

lemma view_loop_map_filter:
  "view_loop blks cid acc = acc @ List.map_filter (\<lambda>b. Block_CommittedView b cid) blks"
  by (induction blks arbitrary: acc) (simp_all add: List.map_filter_simps split: option.splits)

lemma as_of_None_iff: "(as_of cs cid = None) = (\<forall>c\<in>set cs. cid < CommitId c)"
  by (induction cs) (auto simp: not_le)

lemma as_of_Some_le: "as_of cs cid = Some (c, rest) \<Longrightarrow> CommitId c \<le> cid"
  by (induction cs) (auto split: if_splits)

lemma UseCommitted_None_iff:
  "(UseCommitted e cid = None) = (\<forall>c\<in>set (CommitInfo e # Older e). cid < CommitId c)"
  unfolding UseCommitted_def as_of_None_iff [symmetric]
  by (simp split: option.splits)

lemma UseCommitted_Some:
  "UseCommitted e cid = Some b \<Longrightarrow> Id b = Id e \<and> CommitId (CommitInfo b) \<le> cid"
  by (auto simp: UseCommitted_def simp del: as_of.simps split: option.splits dest: as_of_Some_le)

lemma sorted_chain_min:
  assumes "sorted_wrt (<) (map CommitId (rev cs))" "cs \<noteq> []"
  shows "(\<forall>c\<in>set cs. cid < CommitId c) = (cid < CommitId (last cs))"
proof -
  have s: "sorted_wrt (\<lambda>x y. CommitId y < CommitId x) cs"
    using assms(1) by (simp add: sorted_wrt_map sorted_wrt_rev rev_map)
  have "\<forall>c\<in>set cs. CommitId (last cs) \<le> CommitId c"
    using s assms(2)
  proof (induction cs)
    case (Cons a cs)
    then show ?case by (cases cs) (auto simp: less_imp_le dest: order.strict_trans2 order_less_le_trans)
  qed simp
  then show ?thesis
    using assms(2) by (meson last_in_set order_less_le_trans)
qed

lemma UseCommitted_None_created:
  assumes "chain_sorted e"
  shows "(UseCommitted e cid = None) = (cid < created_at e)"
proof -
  have "sorted_wrt (<) (map CommitId (rev (CommitInfo e # Older e)))"
    using assms by (simp add: chain_sorted_def commit_chain_def)
  then have "(\<forall>c\<in>set (CommitInfo e # Older e). cid < CommitId c) =
             (cid < CommitId (last (CommitInfo e # Older e)))"
    by (rule sorted_chain_min) simp
  moreover have "hd (rev (CommitInfo e # Older e)) = last (CommitInfo e # Older e)"
    by (rule hd_rev)
  then have "created_at e = CommitId (last (CommitInfo e # Older e))"
    by (simp only: created_at_def commit_chain_def)
  ultimately show ?thesis by (simp only: UseCommitted_None_iff)
qed

lemma Block_CommittedView_None_iff:
  "(Block_CommittedView b cid = None) = (UseCommitted b cid = None)"
  by (simp add: Block_CommittedView_def split: option.splits)

lemma Block_CommittedView_Id:
  "Block_CommittedView b cid = Some v \<Longrightarrow> Id v = Id b"
  by (auto simp: Block_CommittedView_def split: option.splits dest: UseCommitted_Some)

lemma map_filter_ids:
  assumes "\<forall>b\<in>set blks. chain_sorted b"
  shows "map Id (List.map_filter (\<lambda>b. Block_CommittedView b cid) blks) =
         map Id (filter (\<lambda>b. created_at b \<le> cid) blks)"
  using assms
proof (induction blks)
  case Nil
  then show ?case by (simp add: List.map_filter_simps)
next
  case (Cons b blks)
  have c: "(Block_CommittedView b cid = None) = (cid < created_at b)"
    using Cons.prems by (simp add: Block_CommittedView_None_iff UseCommitted_None_created)
  show ?case
  proof (cases "Block_CommittedView b cid")
    case None
    then show ?thesis using Cons c by (simp add: List.map_filter_simps not_le)
  next
    case (Some v)
    then have "created_at b \<le> cid" using c by (simp add: not_less [symmetric])
    then show ?thesis
      using Cons Some Block_CommittedView_Id [OF Some] by (simp add: List.map_filter_simps)
  qed
qed

lemma CommittedView_absent:
  "UseCommitted e cid = None \<Longrightarrow> CommittedView e cid = Returns (e, None)"
  by (simp add: CommittedView_def)

lemma CommittedView_present:
  assumes "UseCommitted e cid = Some b" "\<not> writer (RWMutex e)"
  shows "CommittedView e cid =
           Returns (e, Some \<lparr>RWMutex = RWMutex b, Id = Id b, CommitInfo = CommitInfo b,
                         Older = Older b, Table = None, Catalog = None, IdIndex = None,
                         BlockSet = List.map_filter (\<lambda>b. Block_CommittedView b cid) (BlockSet e)\<rparr>)"
  using assms
  by (simp add: CommittedView_def RLock_free RUnlock_rlocked view_loop_map_filter)

text \<open>
  Claim C5. \<open>CommittedView\<close> at a commit id older than the segment's own creation
  returns nil. Otherwise it returns a view whose block set is, in the original
  order, the committed views of exactly those blocks whose own view at that commit id
  is not nil; these are the blocks created at or before the commit id. The commit
  chains are sorted, as the design requires of every chain, and no writer holds the
  segment's lock.
\<close>

theorem CommittedView_blocks:
  assumes "chain_sorted e" and "\<forall>b\<in>set (BlockSet e). chain_sorted b"
    and "\<not> writer (RWMutex e)"
  shows "(cid < created_at e \<longrightarrow> CommittedView e cid = Returns (e, None)) \<and>
         (created_at e \<le> cid' \<longrightarrow>
            (\<exists>view. CommittedView e cid' = Returns (e, Some view) \<and>
               BlockSet view = List.map_filter (\<lambda>b. Block_CommittedView b cid') (BlockSet e) \<and>
               map Id (BlockSet view) =
                 map Id (filter (\<lambda>b. created_at b \<le> cid') (BlockSet e)) \<and>
               Id view = Id e \<and> CommitId (CommitInfo view) \<le> cid'))"
proof (intro conjI impI)
  assume "cid < created_at e"
  then have "UseCommitted e cid = None"
    using assms(1) by (simp add: UseCommitted_None_created)
  then show "CommittedView e cid = Returns (e, None)" by (rule CommittedView_absent)
next
  assume "created_at e \<le> cid'"
  then have "UseCommitted e cid' \<noteq> None"
    using assms(1) by (simp add: UseCommitted_None_created not_less)
  then obtain b where b: "UseCommitted e cid' = Some b" by blast
  note v = CommittedView_present [OF b assms(3)]
  show "\<exists>view. CommittedView e cid' = Returns (e, Some view) \<and>
          BlockSet view = List.map_filter (\<lambda>b. Block_CommittedView b cid') (BlockSet e) \<and>
          map Id (BlockSet view) = map Id (filter (\<lambda>b. created_at b \<le> cid') (BlockSet e)) \<and>
          Id view = Id e \<and> CommitId (CommitInfo view) \<le> cid'"
    using v UseCommitted_Some [OF b] map_filter_ids [OF assms(2), of cid'] by simp
qed

lemma ex_chain_sorted:
  "chain_sorted ex_sorted" "chain_sorted (ex_block 1 3 4)" "chain_sorted (ex_block 2 4 4)"
  by (simp_all add: chain_sorted_def commit_chain_def ex_defs word_less_nat_alt)

theorem CommittedView_blocks_witness:
  "chain_sorted ex_sorted \<and> list_all chain_sorted (BlockSet ex_sorted) \<and>
   \<not> writer (RWMutex ex_sorted) \<and> 1 < created_at ex_sorted \<and> created_at ex_sorted \<le> 3 \<and>
   CommittedView ex_sorted 1 = Returns (ex_sorted, None) \<and>
   (\<exists>view. CommittedView ex_sorted 3 = Returns (ex_sorted, Some view) \<and>
      BlockSet view = List.map_filter (\<lambda>b. Block_CommittedView b 3) (BlockSet ex_sorted) \<and>
      map Id (BlockSet view) = [1] \<and> Id view = Id ex_sorted \<and> CommitId (CommitInfo view) \<le> 3)"
proof -
  have b: "BlockSet ex_sorted = [ex_block 1 3 4, ex_block 2 4 4]"
    by (simp add: ex_sorted_def ex_segment_def)
  have h1: "chain_sorted ex_sorted" by (rule ex_chain_sorted)
  have h2: "\<forall>b\<in>set (BlockSet ex_sorted). chain_sorted b"
    by (simp add: b ex_chain_sorted)
  have h3: "\<not> writer (RWMutex ex_sorted)" by (simp add: ex_defs)
  have c: "created_at ex_sorted = 2" by (simp add: created_at_def commit_chain_def ex_defs)
  have h4: "1 < created_at ex_sorted" "created_at ex_sorted \<le> 3"
    by (simp_all add: c word_less_nat_alt word_le_nat_alt)
  have f: "map Id (filter (\<lambda>b. created_at b \<le> 3) (BlockSet ex_sorted)) = [1]"
    by (simp add: b created_at_def commit_chain_def ex_block_def ex_commit_def zero_CommitInfo_def
        word_le_nat_alt)
  show ?thesis
    using h1 h2 h3 h4 CommittedView_blocks [OF h1 h2 h3, of 1 3]
    by (simp add: f list_all_iff)
qed

subsection \<open>Log entries of a segment\<close>

text \<open>
  Claim C9. \<open>ToLogEntry\<close> panics for \<open>ETDropSegment\<close> on a segment that is not
  soft-deleted, and for every type other than \<open>ETCreateSegment\<close>,
  \<open>ETUpgradeSegment\<close> and \<open>ETDropSegment\<close>. For these three types, on a segment
  whose table is attached (and which is soft-deleted when the type is
  \<open>ETDropSegment\<close>), the entry produced has the given type and carries the
  segment's \<open>BaseEntry\<close> as serialised together with the id of the table.
\<close>

theorem ToLogEntry_cases:
  "(\<not> IsSoftDeletedLocked e \<longrightarrow> ToLogEntry e ETDropSegment = Panics ''logic error'') \<and>
   (eType \<notin> {ETCreateSegment, ETUpgradeSegment, ETDropSegment} \<longrightarrow>
      ToLogEntry e' eType = Panics ''not supported'') \<and>
   (eType' \<in> {ETCreateSegment, ETUpgradeSegment, ETDropSegment} \<and>
    (eType' = ETDropSegment \<longrightarrow> IsSoftDeletedLocked e'') \<and> Table e'' = Some t \<longrightarrow>
      ToLogEntry e'' eType' =
        Returns \<lparr>Meta_Type = Some eType',
                 Payload = Some (SegmentLogEntry_bytes (BaseEntry_Marshal e'') (Id t))\<rparr>)"
  by (cases eType)
    (auto simp: ToLogEntry_def toLogEntry_def segmentLogEntry_Marshal_def GetEmptyEntry_def
      BaseEntry_Marshal_Segment)

theorem ToLogEntry_cases_witness:
  "\<not> IsSoftDeletedLocked ex_sorted \<and> ToLogEntry ex_sorted ETDropSegment = Panics ''logic error'' \<and>
   ETCreateBlock \<notin> {ETCreateSegment, ETUpgradeSegment, ETDropSegment} \<and>
   ToLogEntry ex_sorted ETCreateBlock = Panics ''not supported'' \<and>
   ETUpgradeSegment \<in> {ETCreateSegment, ETUpgradeSegment, ETDropSegment} \<and>
   Table ex_sorted = Some ex_table \<and>
   ToLogEntry ex_sorted ETUpgradeSegment =
     Returns \<lparr>Meta_Type = Some ETUpgradeSegment,
              Payload = Some (SegmentLogEntry_bytes
                \<lparr>json_Id = 5, json_CommitInfo = ex_commit 10 OpUpgradeSorted,
                 json_Older = [ex_commit 2 OpCreate]\<rparr> 7)\<rparr>"
proof -
  have h1: "\<not> IsSoftDeletedLocked ex_sorted" by (simp add: IsSoftDeletedLocked_def ex_defs)
  have h2: "Table ex_sorted = Some ex_table" by (simp add: ex_sorted_def ex_segment_def)
  have m: "BaseEntry_Marshal ex_sorted =
      \<lparr>json_Id = 5, json_CommitInfo = ex_commit 10 OpUpgradeSorted,
       json_Older = [ex_commit 2 OpCreate]\<rparr>"
    by (simp add: BaseEntry_Marshal_def ex_sorted_def ex_segment_def)
  have i: "Id ex_table = 7" by (simp add: ex_table_def)
  show ?thesis
    using h1 h2
      ToLogEntry_cases [of ex_sorted ETCreateBlock ex_sorted ETUpgradeSegment ex_sorted ex_table]
    by (simp add: m i)
qed

subsection \<open>Rebuilding a segment after a reload\<close>

lemma rebuild_loop_eq:
  "rebuild_loop (Some u) seg cat i blks idx =
     Returns (seq_of (map Id blks) cat, map (\<lambda>b. Block_rebuild b seg) blks,
              idx_of i (map Id blks) idx)"
  by (induction blks arbitrary: cat i idx) simp_all

lemma rebuild_loop_nil:
  "blks \<noteq> [] \<Longrightarrow> rebuild_loop None seg cat i blks idx = Panics nil_deref"
  by (cases blks) simp_all

lemma idx_of_other: "k \<notin> set ks \<Longrightarrow> idx_of i ks idx k = idx k"
  by (induction ks arbitrary: i idx) auto

lemma idx_of_nth:
  "distinct ks \<Longrightarrow> j < length ks \<Longrightarrow> idx_of i ks idx (ks ! j) = Some (i + j)"
proof (induction ks arbitrary: i idx j)
  case Nil
  then show ?case by simp
next
  case (Cons k ks)
  show ?case
  proof (cases j)
    case 0
    then show ?thesis using Cons.prems by (simp add: idx_of_other)
  next
    case (Suc j')
    then show ?thesis using Cons.prems Cons.IH [of j' "Suc i"] by simp
  qed
qed

lemma idx_of_dom: "dom (idx_of i ks idx) = dom idx \<union> set ks"
  by (induction ks arbitrary: i idx) auto

lemma TryUpdateBlockId_ge:
  "nextBlockId (Sequence cat) \<le> nextBlockId (Sequence (TryUpdateBlockId cat k))"
  "k \<le> nextBlockId (Sequence (TryUpdateBlockId cat k))"
  by (auto simp: TryUpdateBlockId_def)

lemma TryUpdateBlockId_Store [simp]: "Store (TryUpdateBlockId cat k) = Store cat"
  by (simp add: TryUpdateBlockId_def)

lemma seq_of_mono: "nextBlockId (Sequence cat) \<le> nextBlockId (Sequence (seq_of ks cat))"
proof (induction ks arbitrary: cat)
  case Nil
  then show ?case by simp
next
  case (Cons k ks)
  have "nextBlockId (Sequence cat) \<le> nextBlockId (Sequence (TryUpdateBlockId cat k))"
    by (rule TryUpdateBlockId_ge)
  also have "\<dots> \<le> nextBlockId (Sequence (seq_of ks (TryUpdateBlockId cat k)))"
    by (rule Cons.IH)
  finally show ?case by simp
qed

lemma seq_of_ge: "k \<in> set ks \<Longrightarrow> k \<le> nextBlockId (Sequence (seq_of ks cat))"
proof (induction ks arbitrary: cat)
  case Nil
  then show ?case by simp
next
  case (Cons a ks)
  show ?case
  proof (cases "k = a")
    case True
    have "a \<le> nextBlockId (Sequence (TryUpdateBlockId cat a))" by (rule TryUpdateBlockId_ge)
    also have "\<dots> \<le> nextBlockId (Sequence (seq_of ks (TryUpdateBlockId cat a)))"
      by (rule seq_of_mono)
    finally show ?thesis using True by simp
  next
    case False
    then show ?thesis using Cons by simp
  qed
qed

lemma seq_of_Store [simp]: "Store (seq_of ks cat) = Store cat"
  by (induction ks arbitrary: cat) simp_all

lemma rebuild_eq:
  assumes "Table.Catalog table = Some u"
  shows "rebuild cat e table = Returns (seq_of (map Id (BlockSet e)) cat, rebuilt e table)"
  using assms by (simp add: rebuild_def rebuild_loop_eq rebuilt_def Let_def)

lemma Block_rebuild_fields [simp]:
  "Id (Block_rebuild b s) = Id b" "CommitInfo (Block_rebuild b s) = CommitInfo b"
  "Older (Block_rebuild b s) = Older b" "Count (Block_rebuild b s) = Count b"
  "Segment (Block_rebuild b s) = Some s"
  by (simp_all add: Block_rebuild_def)

lemma rebuilt_fields [simp]:
  "Id (rebuilt e table) = Id e" "CommitInfo (rebuilt e table) = CommitInfo e"
  "Older (rebuilt e table) = Older e" "Table (rebuilt e table) = Some table"
  "Segment.Catalog (rebuilt e table) = Table.Catalog table"
  "BlockSet (rebuilt e table) = map (\<lambda>b. Block_rebuild b (Id e)) (BlockSet e)"
  "IdIndex (rebuilt e table) = Some (idx_of 0 (map Id (BlockSet e)) Map.empty)"
  by (simp_all add: rebuilt_def)

lemma map_Id_rebuild [simp]: "map Id (map (\<lambda>b. Block_rebuild b s) blks) = map Id blks"
  by (simp add: comp_def)

lemma rebuilt_consistent:
  assumes "distinct (map Id (BlockSet e))"
  shows "index_consistent (rebuilt e table)"
proof -
  have "\<forall>i<length (BlockSet e).
          idx_of 0 (map Id (BlockSet e)) Map.empty (Id (BlockSet e ! i)) = Some i"
    using idx_of_nth [OF assms, of _ 0 Map.empty] by simp
  then show ?thesis
    by (simp add: index_consistent_def list_all_iff)
qed

lemma onNewBlock_consistent:
  assumes "index_consistent e" "Id entry \<notin> Id ` set (BlockSet e)"
  shows "\<exists>e'. onNewBlock e entry = Returns e' \<and> index_consistent e' \<and>
              BlockSet e' = BlockSet e @ [entry]"
proof -
  obtain idx where i: "IdIndex e = Some idx"
    and c: "\<forall>i<length (BlockSet e). idx (Id (BlockSet e ! i)) = Some i"
    using assms(1) by (auto simp: index_consistent_def list_all_iff split: option.splits)
  have n: "\<forall>i<length (BlockSet e). Id (BlockSet e ! i) \<noteq> Id entry"
    using assms(2) by (metis imageI nth_mem)
  have "\<forall>i<Suc (length (BlockSet e)).
          (idx(Id entry \<mapsto> length (BlockSet e))) (Id ((BlockSet e @ [entry]) ! i)) = Some i"
    using c n by (auto simp: nth_append less_Suc_eq)
  then show ?thesis
    using i by (simp add: onNewBlock_def index_consistent_def list_all_iff)
qed

text \<open>
  Claim C8. After \<open>rebuild\<close> the index is consistent with the block sequence, which
  keeps its order: every block id maps to the position of its block, and the index
  holds no other id. The segment points to the table and to the table's catalog,
  every block points back to the segment, and the catalog's block-id sequence has
  been told every block id (it is at least each of them). \<open>onNewBlock\<close> keeps the
  index consistent when it appends a block. Block ids are unique, as the allocator
  makes them.
\<close>

theorem rebuild_index_consistent:
  "(Table.Catalog table = Some u \<and> distinct (map Id (BlockSet e)) \<longrightarrow>
      (\<exists>cat' e' idx.
         rebuild cat e table = Returns (cat', e') \<and>
         index_consistent e' \<and> IdIndex e' = Some idx \<and> dom idx = Id ` set (BlockSet e') \<and>
         map Id (BlockSet e') = map Id (BlockSet e) \<and>
         Table e' = Some table \<and> Segment.Catalog e' = Table.Catalog table \<and>
         list_all (\<lambda>b. Segment b = Some (Id e')) (BlockSet e') \<and>
         list_all (\<lambda>b. Id b \<le> nextBlockId (Sequence cat')) (BlockSet e'))) \<and>
   (index_consistent e2 \<and> Id entry \<notin> Id ` set (BlockSet e2) \<longrightarrow>
      (\<exists>e2'. onNewBlock e2 entry = Returns e2' \<and> index_consistent e2' \<and>
         BlockSet e2' = BlockSet e2 @ [entry]))"
proof (intro conjI impI)
  assume a: "Table.Catalog table = Some u \<and> distinct (map Id (BlockSet e))"
  then have r: "rebuild cat e table = Returns (seq_of (map Id (BlockSet e)) cat, rebuilt e table)"
    by (simp add: rebuild_eq)
  have c: "index_consistent (rebuilt e table)" using a by (simp add: rebuilt_consistent)
  have d: "dom (idx_of 0 (map Id (BlockSet e)) Map.empty) = Id ` set (BlockSet (rebuilt e table))"
    by (simp add: idx_of_dom image_comp comp_def)
  have s: "list_all (\<lambda>b. Segment b = Some (Id (rebuilt e table))) (BlockSet (rebuilt e table))"
    by (simp add: list_all_iff)
  have q: "list_all (\<lambda>b. Id b \<le> nextBlockId (Sequence (seq_of (map Id (BlockSet e)) cat)))
             (BlockSet (rebuilt e table))"
    by (simp add: list_all_iff seq_of_ge)
  have m: "map Id (BlockSet (rebuilt e table)) = map Id (BlockSet e)" by simp
  show "\<exists>cat' e' idx.
         rebuild cat e table = Returns (cat', e') \<and>
         index_consistent e' \<and> IdIndex e' = Some idx \<and> dom idx = Id ` set (BlockSet e') \<and>
         map Id (BlockSet e') = map Id (BlockSet e) \<and>
         Table e' = Some table \<and> Segment.Catalog e' = Table.Catalog table \<and>
         list_all (\<lambda>b. Segment b = Some (Id e')) (BlockSet e') \<and>
         list_all (\<lambda>b. Id b \<le> nextBlockId (Sequence cat')) (BlockSet e')"
    using r c d s q m by (intro exI [of _ "seq_of (map Id (BlockSet e)) cat"]
        exI [of _ "rebuilt e table"] exI [of _ "idx_of 0 (map Id (BlockSet e)) Map.empty"])
      (simp del: rebuilt_fields(6) add: rebuilt_fields(1-5,7))
next
  assume "index_consistent e2 \<and> Id entry \<notin> Id ` set (BlockSet e2)"
  then show "\<exists>e2'. onNewBlock e2 entry = Returns e2' \<and> index_consistent e2' \<and>
         BlockSet e2' = BlockSet e2 @ [entry]"
    by (simp add: onNewBlock_consistent)
qed

theorem rebuild_index_consistent_witness:
  "Table.Catalog ex_table = Some () \<and> distinct (map Id (BlockSet ex_full)) \<and>
   (\<exists>cat' e' idx.
      rebuild ex_catalog ex_full ex_table = Returns (cat', e') \<and>
      index_consistent e' \<and> IdIndex e' = Some idx \<and> dom idx = Id ` set (BlockSet e') \<and>
      map Id (BlockSet e') = map Id (BlockSet ex_full) \<and>
      Table e' = Some ex_table \<and> Segment.Catalog e' = Table.Catalog ex_table \<and>
      list_all (\<lambda>b. Segment b = Some (Id e')) (BlockSet e') \<and>
      list_all (\<lambda>b. Id b \<le> nextBlockId (Sequence cat')) (BlockSet e')) \<and>
   index_consistent ex_full \<and> Id (ex_block 3 12 0) \<notin> Id ` set (BlockSet ex_full) \<and>
   (\<exists>e2'. onNewBlock ex_full (ex_block 3 12 0) = Returns e2' \<and> index_consistent e2' \<and>
      BlockSet e2' = BlockSet ex_full @ [ex_block 3 12 0])"
proof -
  have h1: "Table.Catalog ex_table = Some ()" by (simp add: ex_table_def)
  have h2: "distinct (map Id (BlockSet ex_full))" by (simp add: ex_defs)
  have h3: "index_consistent ex_full"
    by (auto simp: index_consistent_def list_all_iff ex_defs less_Suc_eq numeral_2_eq_2)
  have h4: "Id (ex_block 3 12 0) \<notin> Id ` set (BlockSet ex_full)" by (simp add: ex_defs)
  show ?thesis
    using h1 h2 h3 h4
      rebuild_index_consistent [of ex_table "()" ex_full ex_catalog ex_full "ex_block 3 12 0"]
    by simp
qed

subsection \<open>Serialising, deserialising and rebuilding\<close>

lemma Block_roundtrip:
  "Block_Unmarshal (Block_Marshal b) = b\<lparr>RWMutex := free_mutex, Segment := None\<rparr>"
  by (simp add: Block_Unmarshal_def Block_Marshal_def)

lemma Block_Marshal_rebuild [simp]:
  "Block_Marshal (Block_rebuild b s) = Block_Marshal b"
  "Block_Marshal (Block_Unmarshal j) = j"
  by (simp_all add: Block_Marshal_def Block_rebuild_def Block_Unmarshal_def)

lemma Unmarshal_Marshal: "Unmarshal zero_Segment (Marshal e) = Inr (decoded e)"
  by (simp add: Unmarshal_def Marshal_def decoded_def)

lemma decoded_fields [simp]:
  "Id (decoded e) = Id e" "CommitInfo (decoded e) = CommitInfo e" "Older (decoded e) = Older e"
  "map Id (BlockSet (decoded e)) = map Id (BlockSet e)"
  "map Block_Marshal (BlockSet (decoded e)) = map Block_Marshal (BlockSet e)"
  by (simp_all add: decoded_def comp_def Block_Unmarshal_def Block_Marshal_def)

lemma Marshal_eq_iff:
  "(Marshal a = Marshal b) =
     (Id a = Id b \<and> CommitInfo a = CommitInfo b \<and> Older a = Older b \<and>
      map Block_Marshal (BlockSet a) = map Block_Marshal (BlockSet b))"
  by (auto simp: Marshal_def)

lemma Block_Marshal_maps:
  assumes "map Block_Marshal xs = map Block_Marshal ys"
  shows "map Id xs = map Id ys \<and> map commit_chain xs = map commit_chain ys \<and>
         map Count xs = map Count ys"
proof -
  have l: "length xs = length ys" using assms by (rule map_eq_imp_length_eq)
  have "\<forall>i<length xs. Block_Marshal (xs ! i) = Block_Marshal (ys ! i)"
    using assms l by (metis nth_map)
  then have "\<forall>i<length xs. Id (xs ! i) = Id (ys ! i) \<and>
      commit_chain (xs ! i) = commit_chain (ys ! i) \<and> Count (xs ! i) = Count (ys ! i)"
    by (simp add: Block_Marshal_def commit_chain_def)
  then show ?thesis using l by (simp add: list_eq_iff_nth_eq)
qed

text \<open>
  Claim C7. Decoding the encoding of a segment into a fresh \<open>Segment\<close> and then
  running \<open>rebuild\<close> gives a segment whose index is the one \<open>rebuild\<close> builds on
  the original, which maps every block id to its position; its id, its commit chain
  and its blocks' ids, commit chains and row counts are those of the original, in
  the same order; and the back-references are attached again.
\<close>

theorem Marshal_Unmarshal_rebuild:
  assumes "Table.Catalog table = Some u"
  shows "\<exists>e0 cat' e1 e2.
           Unmarshal zero_Segment (Marshal e) = Inr e0 \<and>
           rebuild cat e0 table = Returns (cat', e1) \<and>
           rebuild cat e table = Returns (cat', e2) \<and>
           IdIndex e1 = IdIndex e2 \<and>
           (distinct (map Id (BlockSet e)) \<longrightarrow> index_consistent e1) \<and>
           Id e1 = Id e \<and> commit_chain e1 = commit_chain e \<and>
           map Id (BlockSet e1) = map Id (BlockSet e) \<and>
           map commit_chain (BlockSet e1) = map commit_chain (BlockSet e) \<and>
           map Count (BlockSet e1) = map Count (BlockSet e) \<and>
           Marshal e1 = Marshal e \<and>
           Table e1 = Some table \<and> Segment.Catalog e1 = Table.Catalog table \<and>
           list_all (\<lambda>b. Segment b = Some (Id e)) (BlockSet e1)"
proof -
  let ?e1 = "rebuilt (decoded e) table"
  have r1: "rebuild cat (decoded e) table = Returns (seq_of (map Id (BlockSet e)) cat, ?e1)"
    using rebuild_eq [OF assms, of cat "decoded e"] by simp
  have r2: "rebuild cat e table = Returns (seq_of (map Id (BlockSet e)) cat, rebuilt e table)"
    by (rule rebuild_eq [OF assms])
  have i: "IdIndex ?e1 = IdIndex (rebuilt e table)" by simp
  have c: "distinct (map Id (BlockSet e)) \<longrightarrow> index_consistent ?e1"
    by (simp add: rebuilt_consistent)
  have b: "map Block_Marshal (BlockSet ?e1) = map Block_Marshal (BlockSet e)"
    by (simp add: decoded_def comp_def)
  have m: "Marshal ?e1 = Marshal e" using b by (simp add: Marshal_eq_iff)
  have s: "list_all (\<lambda>b. Segment b = Some (Id e)) (BlockSet ?e1)"
    by (simp add: list_all_iff)
  have h: "commit_chain ?e1 = commit_chain e" by (simp add: commit_chain_def)
  show ?thesis
    using Unmarshal_Marshal [of e] r1 r2 i c m s h Block_Marshal_maps [OF b]
    by (intro exI [of _ "decoded e"] exI [of _ "seq_of (map Id (BlockSet e)) cat"]
        exI [of _ ?e1] exI [of _ "rebuilt e table"])
      (simp del: rebuilt_fields(6,7))
qed

theorem Marshal_Unmarshal_rebuild_witness:
  "Table.Catalog ex_table = Some () \<and> distinct (map Id (BlockSet ex_sorted)) \<and>
   (\<exists>e0 cat' e1 e2.
      Unmarshal zero_Segment (Marshal ex_sorted) = Inr e0 \<and>
      rebuild ex_catalog e0 ex_table = Returns (cat', e1) \<and>
      rebuild ex_catalog ex_sorted ex_table = Returns (cat', e2) \<and>
      IdIndex e1 = IdIndex e2 \<and> index_consistent e1 \<and>
      Id e1 = 5 \<and>
      commit_chain e1 = [ex_commit 2 OpCreate, ex_commit 10 OpUpgradeSorted] \<and>
      map Id (BlockSet e1) = [1, 2] \<and>
      map commit_chain (BlockSet e1) = [[ex_commit 3 OpCreate], [ex_commit 4 OpCreate]] \<and>
      map Count (BlockSet e1) = [4, 4] \<and>
      Marshal e1 = Marshal ex_sorted \<and>
      Table e1 = Some ex_table \<and> Segment.Catalog e1 = Some () \<and>
      list_all (\<lambda>b. Segment b = Some 5) (BlockSet e1))"
proof -
  have h1: "Table.Catalog ex_table = Some ()" by (simp add: ex_table_def)
  have h2: "distinct (map Id (BlockSet ex_sorted))"
    by (simp add: ex_sorted_def ex_segment_def ex_block_def)
  have f: "Id ex_sorted = 5"
    "commit_chain ex_sorted = [ex_commit 2 OpCreate, ex_commit 10 OpUpgradeSorted]"
    "map Id (BlockSet ex_sorted) = [1, 2]"
    "map commit_chain (BlockSet ex_sorted) = [[ex_commit 3 OpCreate], [ex_commit 4 OpCreate]]"
    "map Count (BlockSet ex_sorted) = [4, 4]"
    by (simp_all add: ex_sorted_def ex_segment_def ex_block_def commit_chain_def)
  show ?thesis
    using h1 h2 Marshal_Unmarshal_rebuild [OF h1, of ex_sorted ex_catalog]
    by (simp add: f)
qed

subsection \<open>Creating a block under a sorted segment\<close>

lemma newBlockEntry_returns:
  assumes "Table e = Some t" "Table.Catalog t = Some u"
  shows "newBlockEntry cat e tranId exIndex =
           Returns (snd (NextBlockId cat),
             \<lparr>RWMutex = free_mutex, Id = fst (NextBlockId cat),
              CommitInfo = \<lparr>CommitId = tranId, TranId = tranId, Op = OpCreate,
                ExternalIndex = exIndex, PrevIndex = None, AppliedIndex = None\<rparr>,
              Older = [], Segment = Some (Id e), Count = 0\<rparr>)"
  using assms by (simp add: newBlockEntry_def split: prod.splits)

lemma newBlockEntry_Segment:
  "newBlockEntry cat e tranId exIndex = Returns (cat1, be) \<Longrightarrow> Segment be = Some (Id e)"
  by (auto simp: newBlockEntry_def split: option.splits prod.splits)

lemma Unlock_wlocked_append:
  "\<not> writer (RWMutex e) \<Longrightarrow>
   Unlock ((wlocked e)\<lparr>IdIndex := i, BlockSet := b\<rparr>) = Returns (e\<lparr>IdIndex := i, BlockSet := b\<rparr>)"
  by (simp add: Unlock_def wlocked_def mutex_unlock)

lemma CreateBlock_returns:
  assumes "newBlockEntry cat e tranId exIndex = Returns (cat1, be)"
    and "readers (RWMutex e) = 0" "\<not> writer (RWMutex e)" "IdIndex e = Some idx"
    and "autoCommit \<longrightarrow> Segment.Catalog e \<noteq> None"
  shows "CreateBlock cat e tranId exIndex autoCommit =
           Returns (if autoCommit
                    then logged cat1 \<lparr>Meta_Type = Some ETCreateBlock,
                           Payload = Some (BlockLogEntry_bytes (BaseEntry_Marshal be) (Id e))\<rparr>
                    else cat1,
                    appended e idx be, be)"
  using assms newBlockEntry_Segment [OF assms(1)]
  by (auto simp: CreateBlock_def Lock_free onNewBlock_def Unlock_wlocked_append appended_def
      Commit_def Block_ToLogEntry_def logged_def)

lemma CreateBlock_inv:
  assumes "CreateBlock cat e tranId exIndex autoCommit = Returns (cat', e', be)"
  shows "\<exists>idx. IdIndex e = Some idx \<and> e' = appended e idx be \<and> Table e \<noteq> None \<and>
           readers (RWMutex e) = 0 \<and> \<not> writer (RWMutex e)"
proof -
  from assms obtain cat1 be1 where n: "newBlockEntry cat e tranId exIndex = Returns (cat1, be1)"
    by (cases "newBlockEntry cat e tranId exIndex") (auto simp: CreateBlock_def)
  have t: "Table e \<noteq> None" using n by (auto simp: newBlockEntry_def split: option.splits)
  have l: "readers (RWMutex e) = 0 \<and> \<not> writer (RWMutex e)"
  proof (rule ccontr)
    assume "\<not> (readers (RWMutex e) = 0 \<and> \<not> writer (RWMutex e))"
    then have "Lock e = Blocks" by (auto simp: Lock_def)
    then show False using assms n by (simp add: CreateBlock_def)
  qed
  obtain idx where i: "IdIndex e = Some idx"
  proof (cases "IdIndex e")
    case None
    then have "onNewBlock (wlocked e) be1 = Panics ''assignment to entry in nil map''"
      by (simp add: onNewBlock_def)
    then show ?thesis using assms n l by (simp add: CreateBlock_def Lock_free)
  qed blast
  have c: "autoCommit \<longrightarrow> Segment.Catalog e \<noteq> None"
  proof (cases "Segment.Catalog e")
    case None
    then have "\<not> autoCommit"
      using assms n l i
      by (auto simp: CreateBlock_def Lock_free onNewBlock_def Unlock_wlocked_append)
    then show ?thesis by simp
  qed simp
  show ?thesis
    using assms CreateBlock_returns [OF n conjunct1 [OF l] conjunct2 [OF l] i c] l i t by auto
qed

lemma appended_fields [simp]:
  "Id (appended e idx be) = Id e" "CommitInfo (appended e idx be) = CommitInfo e"
  "Older (appended e idx be) = Older e" "Table (appended e idx be) = Table e"
  "BlockSet (appended e idx be) = BlockSet e @ [be]" "RWMutex (appended e idx be) = RWMutex e"
  by (simp_all add: appended_def)

lemma next_loop_returns:
  assumes "Table e = Some t"
  shows "\<exists>r. next_loop Less e from blks ret = Returns r \<and>
             (r = ret \<or> (\<exists>b\<in>set blks. r = Some b))"
  using assms
proof (induction blks arbitrary: ret)
  case Nil
  then show ?case by simp
next
  case (Cons blk blks)
  show ?case
  proof (cases "\<not> IsFull (BlockMaxRows (Schema t)) blk \<and> Less from blk")
    case True
    then show ?thesis
      using Cons.prems Cons.IH [OF Cons.prems, of "Some blk"]
      by (auto simp: Block_IsFull_def)
  next
    case False
    then show ?thesis using Cons.prems by (auto simp: Block_IsFull_def)
  qed
qed

text \<open>
  Claim C1, as the code has it. \<open>CreateBlock\<close> and \<open>SimpleCreateBlock\<close> return a
  block and no error, and do not look at the segment's commit operation: on a sorted
  segment they append the new block as on any other (second part, and the example
  that follows). The check is made by the caller
  that creates blocks on demand: on a sorted segment that holds at least one block,
  \<open>SimpleGetOrCreateNextBlock\<close> creates nothing; it returns nil or one of the blocks
  and leaves the segment and the catalog as they were (first part).
\<close>

theorem sorted_segment_gets_no_block:
  "(IsSorted e \<and> BlockSet e \<noteq> [] \<and> Table e = Some t \<longrightarrow>
      (\<exists>ret. SimpleGetOrCreateNextBlock Less cat e from = Returns (cat, e, ret) \<and>
         (ret = None \<or> (\<exists>b\<in>set (BlockSet e). ret = Some b)))) \<and>
   (IsSorted e2 \<and> newBlockEntry cat2 e2 tranId exIndex = Returns (cat2', be) \<and>
    RWMutex e2 = free_mutex \<and> IdIndex e2 = Some idx \<longrightarrow>
      (\<exists>e2'. CreateBlock cat2 e2 tranId exIndex False = Returns (cat2', e2', be) \<and>
         BlockSet e2' = BlockSet e2 @ [be] \<and> IsSorted e2'))"
proof (intro conjI impI)
  assume a: "IsSorted e \<and> BlockSet e \<noteq> [] \<and> Table e = Some t"
  then obtain r where r: "next_loop Less e from (rev (BlockSet e)) None = Returns r"
    and s: "r = None \<or> (\<exists>b\<in>set (rev (BlockSet e)). r = Some b)"
    using next_loop_returns [of e t Less "from" "rev (BlockSet e)" None] by blast
  have h: "HasMaxBlocks e = Returns True" using a by (simp add: HasMaxBlocks_sorted)
  have "SimpleGetOrCreateNextBlock Less cat e from = Returns (cat, e, r)"
    using a r h by (simp add: SimpleGetOrCreateNextBlock_def)
  then show "\<exists>ret. SimpleGetOrCreateNextBlock Less cat e from = Returns (cat, e, ret) \<and>
         (ret = None \<or> (\<exists>b\<in>set (BlockSet e). ret = Some b))"
    using s by auto
next
  assume a: "IsSorted e2 \<and> newBlockEntry cat2 e2 tranId exIndex = Returns (cat2', be) \<and>
    RWMutex e2 = free_mutex \<and> IdIndex e2 = Some idx"
  then have l: "readers (RWMutex e2) = 0" "\<not> writer (RWMutex e2)"
    by (simp_all add: free_mutex_def)
  have "CreateBlock cat2 e2 tranId exIndex False = Returns (cat2', appended e2 idx be, be)"
    using a l CreateBlock_returns [of cat2 e2 tranId exIndex cat2' be idx False] by simp
  moreover have "IsSorted (appended e2 idx be)" using a by (simp add: IsSorted_def)
  ultimately show "\<exists>e2'. CreateBlock cat2 e2 tranId exIndex False = Returns (cat2', e2', be) \<and>
         BlockSet e2' = BlockSet e2 @ [be] \<and> IsSorted e2'"
    by simp
qed

lemma ex_newBlockEntry:
  "newBlockEntry ex_catalog ex_sorted 12 None =
     Returns (ex_catalog\<lparr>Sequence := \<lparr>nextBlockId = 3, nextUncommitId = 100\<rparr>\<rparr>, ex_block 3 12 0)"
  by (simp add: newBlockEntry_def NextBlockId_def ex_defs)

theorem sorted_segment_gets_no_block_witness:
  "IsSorted ex_sorted \<and> BlockSet ex_sorted \<noteq> [] \<and> Table ex_sorted = Some ex_table \<and>
   (\<exists>ret. SimpleGetOrCreateNextBlock (\<lambda>f b. True) ex_catalog ex_sorted None =
            Returns (ex_catalog, ex_sorted, ret) \<and>
       (ret = None \<or> (\<exists>b\<in>set (BlockSet ex_sorted). ret = Some b))) \<and>
   newBlockEntry ex_catalog ex_sorted 12 None =
     Returns (ex_catalog\<lparr>Sequence := \<lparr>nextBlockId = 3, nextUncommitId = 100\<rparr>\<rparr>, ex_block 3 12 0) \<and>
   RWMutex ex_sorted = free_mutex \<and> IdIndex ex_sorted = Some [1 \<mapsto> 0, 2 \<mapsto> 1] \<and>
   (\<exists>e2'. CreateBlock ex_catalog ex_sorted 12 None False =
            Returns (ex_catalog\<lparr>Sequence := \<lparr>nextBlockId = 3, nextUncommitId = 100\<rparr>\<rparr>, e2',
                     ex_block 3 12 0) \<and>
       BlockSet e2' = BlockSet ex_sorted @ [ex_block 3 12 0] \<and> IsSorted e2')"
proof -
  have h1: "IsSorted ex_sorted" by (simp add: IsSorted_def ex_defs)
  have h2: "BlockSet ex_sorted \<noteq> []" by (simp add: ex_sorted_def ex_segment_def)
  have h3: "Table ex_sorted = Some ex_table" by (simp add: ex_sorted_def ex_segment_def)
  have h4: "RWMutex ex_sorted = free_mutex" by (simp add: ex_sorted_def ex_segment_def)
  have h5: "IdIndex ex_sorted = Some [1 \<mapsto> 0, 2 \<mapsto> 1]"
    by (simp add: ex_sorted_def ex_segment_def)
  show ?thesis
    using h1 h2 h3 h4 h5 ex_newBlockEntry
      sorted_segment_gets_no_block [of ex_sorted ex_table "\<lambda>f b. True" ex_catalog None
        ex_sorted ex_catalog 12 None
        "ex_catalog\<lparr>Sequence := \<lparr>nextBlockId = 3, nextUncommitId = 100\<rparr>\<rparr>"
        "ex_block 3 12 0" "[1 \<mapsto> 0, 2 \<mapsto> 1]"]
    by simp
qed

theorem CreateBlock_on_sorted_counterexample:
  "IsSorted ex_sorted \<and>
   CreateBlock ex_catalog ex_sorted 12 None False =
     Returns (ex_catalog\<lparr>Sequence := \<lparr>nextBlockId = 3, nextUncommitId = 100\<rparr>\<rparr>,
              ex_sorted\<lparr>IdIndex := Some [1 \<mapsto> 0, 2 \<mapsto> 1, 3 \<mapsto> 2],
                BlockSet := [ex_block 1 3 4, ex_block 2 4 4, ex_block 3 12 0]\<rparr>,
              ex_block 3 12 0) \<and>
   SimpleCreateBlock ex_catalog ex_sorted None =
     Returns (\<lparr>Sequence = \<lparr>nextBlockId = 3, nextUncommitId = 101\<rparr>,
               Store = [\<lparr>Meta_Type = Some ETCreateBlock,
                 Payload = Some (BlockLogEntry_bytes
                   \<lparr>json_Id = 3, json_CommitInfo = ex_commit 101 OpCreate, json_Older = []\<rparr> 5)\<rparr>]\<rparr>,
              ex_sorted\<lparr>IdIndex := Some [1 \<mapsto> 0, 2 \<mapsto> 1, 3 \<mapsto> 2],
                BlockSet := [ex_block 1 3 4, ex_block 2 4 4, ex_block 3 101 0]\<rparr>,
              ex_block 3 101 0)"
proof -
  have h1: "IsSorted ex_sorted" by (simp add: IsSorted_def ex_defs)
  have l: "readers (RWMutex ex_sorted) = 0" "\<not> writer (RWMutex ex_sorted)"
    by (simp_all add: ex_defs)
  have i: "IdIndex ex_sorted = Some [1 \<mapsto> 0, 2 \<mapsto> 1]"
    by (simp add: ex_sorted_def ex_segment_def)
  have a: "appended ex_sorted [1 \<mapsto> 0, 2 \<mapsto> 1] (ex_block 3 n 0) =
      ex_sorted\<lparr>IdIndex := Some [1 \<mapsto> 0, 2 \<mapsto> 1, 3 \<mapsto> 2],
                BlockSet := [ex_block 1 3 4, ex_block 2 4 4, ex_block 3 n 0]\<rparr>" for n
    by (simp add: appended_def ex_sorted_def ex_segment_def ex_block_def numeral_2_eq_2)
  have c1: "CreateBlock ex_catalog ex_sorted 12 None False =
     Returns (ex_catalog\<lparr>Sequence := \<lparr>nextBlockId = 3, nextUncommitId = 100\<rparr>\<rparr>,
              appended ex_sorted [1 \<mapsto> 0, 2 \<mapsto> 1] (ex_block 3 12 0), ex_block 3 12 0)"
    using CreateBlock_returns [OF ex_newBlockEntry l i, of False] by simp
  have n2: "newBlockEntry (ex_catalog\<lparr>Sequence := \<lparr>nextBlockId = 2, nextUncommitId = 101\<rparr>\<rparr>)
       ex_sorted 101 None =
     Returns (ex_catalog\<lparr>Sequence := \<lparr>nextBlockId = 3, nextUncommitId = 101\<rparr>\<rparr>, ex_block 3 101 0)"
    by (simp add: newBlockEntry_def NextBlockId_def ex_defs)
  have k: "True \<longrightarrow> Segment.Catalog ex_sorted \<noteq> None" by (simp add: ex_sorted_def ex_segment_def)
  have c2: "CreateBlock (ex_catalog\<lparr>Sequence := \<lparr>nextBlockId = 2, nextUncommitId = 101\<rparr>\<rparr>)
       ex_sorted 101 None True =
     Returns (logged (ex_catalog\<lparr>Sequence := \<lparr>nextBlockId = 3, nextUncommitId = 101\<rparr>\<rparr>)
                \<lparr>Meta_Type = Some ETCreateBlock,
                 Payload = Some (BlockLogEntry_bytes (BaseEntry_Marshal (ex_block 3 101 0))
                   (Id ex_sorted))\<rparr>,
              appended ex_sorted [1 \<mapsto> 0, 2 \<mapsto> 1] (ex_block 3 101 0), ex_block 3 101 0)"
    using CreateBlock_returns [OF n2 l i k] by simp
  have c3: "SimpleCreateBlock ex_catalog ex_sorted None =
      CreateBlock (ex_catalog\<lparr>Sequence := \<lparr>nextBlockId = 2, nextUncommitId = 101\<rparr>\<rparr>)
       ex_sorted 101 None True"
    by (simp add: SimpleCreateBlock_def NextUncommitId_def ex_defs)
  have m: "BaseEntry_Marshal (ex_block 3 101 0) =
      \<lparr>json_Id = 3, json_CommitInfo = ex_commit 101 OpCreate, json_Older = []\<rparr>"
    by (simp add: BaseEntry_Marshal_def ex_block_def)
  have g: "logged (ex_catalog\<lparr>Sequence := \<lparr>nextBlockId = 3, nextUncommitId = 101\<rparr>\<rparr>) x =
      \<lparr>Sequence = \<lparr>nextBlockId = 3, nextUncommitId = 101\<rparr>, Store = [x]\<rparr>" for x
    by (simp add: logged_def ex_catalog_def)
  have d: "Id ex_sorted = 5" by (simp add: ex_sorted_def ex_segment_def)
  note r1 = c1 [unfolded a]
  note r2 = c3 [unfolded c2 a m g d]
  show ?thesis by (intro conjI h1 r1 r2)
qed

subsection \<open>\<open>HasMaxBlocks\<close> along a sequence of calls\<close>

lemma HasMaxBlocks_iff:
  assumes "Table e = Some t" "length (BlockSet e) < 2 ^ 63"
  shows "HasMaxBlocks e =
           Returns (IsSorted e \<or> length (BlockSet e) = unat (SegmentMaxBlocks (Schema t)))"
  using assms len_eq_unat [OF assms(2), of "SegmentMaxBlocks (Schema t)"]
  by (simp add: HasMaxBlocks_def)

lemma below_max_not_max:
  assumes "below_max e" "HasMaxBlocks e = Returns True"
  shows "IsSorted e"
proof (rule ccontr)
  assume s: "\<not> IsSorted e"
  obtain t where t: "Table e = Some t"
    and l: "length (BlockSet e) < unat (SegmentMaxBlocks (Schema t))"
    using assms(1) by (auto simp: below_max_def split: option.splits)
  have "int (length (BlockSet e)) = sint (SegmentMaxBlocks (Schema t))"
    using assms(2) s t by (simp add: HasMaxBlocks_open)
  then have "length (BlockSet e) = unat (SegmentMaxBlocks (Schema t))"
    by (rule len_eq_sint_imp)
  then show False using l by simp
qed

lemma HasMaxBlocks_upgraded:
  "Op c = OpUpgradeSorted \<Longrightarrow> HasMaxBlocks (upgraded e c) = Returns True"
  by (simp add: HasMaxBlocks_sorted IsSorted_def)

lemma call_keeps_max:
  assumes "HasMaxBlocks e = Returns True"
    and "is_create c \<longrightarrow> below_max e"
    and "call (cat, e) c = Returns (cat', e')"
  shows "HasMaxBlocks e' = Returns True"
proof (cases c)
  case (Call_CreateBlock tranId exIndex autoCommit)
  then obtain cat1 be where
    r: "CreateBlock cat e tranId exIndex autoCommit = Returns (cat1, e', be)"
    using assms(3) by (auto simp: bind_eq_Returns)
  obtain idx where a: "e' = appended e idx be" using CreateBlock_inv [OF r] by blast
  have "IsSorted e" using assms(1,2) Call_CreateBlock by (simp add: below_max_not_max)
  then have "IsSorted e'" using a by (simp add: IsSorted_def)
  then show ?thesis by (rule HasMaxBlocks_sorted)
next
  case (Call_Upgrade tranId exIndice autoCommit)
  then obtain cat1 err where
    r: "Upgrade cat e tranId exIndice autoCommit = Returns (cat1, e', err)"
    using assms(3) by (auto simp: bind_eq_Returns)
  show ?thesis
  proof (cases err)
    case None
    obtain t cInfo where h: "readers (RWMutex e) = 0" "\<not> writer (RWMutex e)" "Table e = Some t"
      "int (length (BlockSet e)) = sint (SegmentMaxBlocks (Schema t))"
      "list_all (IsFull (BlockMaxRows (Schema t))) (BlockSet e)"
      "Op (CommitInfo e) = OpCreate"
      "new_cInfo e tranId OpUpgradeSorted exIndice = Returns cInfo"
      "CommitId (CommitInfo e) < tranId"
      "autoCommit \<longrightarrow> Table.Catalog t \<noteq> None"
      using Upgrade_returns_None [OF r [unfolded None]] by blast
    have "e' = upgraded e cInfo"
      using r Upgrade_success [OF h, of cat] by simp
    then show ?thesis using new_cInfo_ids [OF h(7)] by (simp add: HasMaxBlocks_upgraded)
  next
    case (Some x)
    then have "e' = e \<or> e' = rlocked e" using Upgrade_returns_error r by blast
    then show ?thesis using assms(1) by auto
  qed
qed

lemma calls_keep_max:
  assumes "HasMaxBlocks (snd s) = Returns True" "respects_max s cs" "calls s cs = Returns s'"
  shows "HasMaxBlocks (snd s') = Returns True"
  using assms
proof (induction cs arbitrary: s)
  case Nil
  then show ?case by simp
next
  case (Cons c cs)
  from Cons.prems(3) obtain s1 where c: "call s c = Returns s1" and r: "calls s1 cs = Returns s'"
    by (auto simp: bind_eq_Returns)
  have "HasMaxBlocks (snd s1) = Returns True"
    using call_keeps_max [of "snd s" c "fst s" "fst s1" "snd s1"] Cons.prems(1,2) c by simp
  moreover have "respects_max s1 cs" using Cons.prems(2) c by simp
  ultimately show ?case using r by (rule Cons.IH)
qed

lemma creates_count:
  assumes "list_all is_create cs" "calls s cs = Returns s'"
  shows "length (BlockSet (snd s')) = length (BlockSet (snd s)) + length cs \<and>
         IsSorted (snd s') = IsSorted (snd s) \<and> Table (snd s') = Table (snd s)"
  using assms
proof (induction cs arbitrary: s)
  case Nil
  then show ?case by simp
next
  case (Cons c cs)
  from Cons.prems(2) obtain s1 where c: "call s c = Returns s1" and r: "calls s1 cs = Returns s'"
    by (auto simp: bind_eq_Returns)
  obtain tranId exIndex autoCommit where k: "c = Call_CreateBlock tranId exIndex autoCommit"
    using Cons.prems(1) by (cases c) simp_all
  obtain be where "CreateBlock (fst s) (snd s) tranId exIndex autoCommit = Returns (fst s1, snd s1, be)"
    using c k by (cases s; cases s1) (auto simp: bind_eq_Returns)
  then obtain idx where "snd s1 = appended (snd s) idx be" using CreateBlock_inv by blast
  then have "length (BlockSet (snd s1)) = Suc (length (BlockSet (snd s)))"
    "IsSorted (snd s1) = IsSorted (snd s)" "Table (snd s1) = Table (snd s)"
    by (simp_all add: IsSorted_def)
  then show ?case using Cons.IH [OF _ r] Cons.prems(1) by simp
qed

text \<open>
  Claim C6. \<open>HasMaxBlocks\<close> is true exactly when the segment is sorted or holds
  \<open>SegmentMaxBlocks\<close> blocks (a slice is shorter than \<open>2 ^ 63\<close>). Hence, after any
  number of \<open>CreateBlock\<close> calls on a segment that is not sorted, it is true exactly
  when the count has reached the maximum; and once true it stays true along every
  sequence of \<open>CreateBlock\<close> and \<open>Upgrade\<close> calls that creates blocks only below
  the maximum.
\<close>

theorem HasMaxBlocks_monotonic:
  "(Table e = Some t \<and> length (BlockSet e) < 2 ^ 63 \<longrightarrow>
      HasMaxBlocks e =
        Returns (IsSorted e \<or> length (BlockSet e) = unat (SegmentMaxBlocks (Schema t)))) \<and>
   (\<not> IsSorted e1 \<and> Table e1 = Some t1 \<and> list_all is_create cs \<and>
    calls (cat1, e1) cs = Returns (cat1', e1') \<and> length (BlockSet e1') < 2 ^ 63 \<longrightarrow>
      length (BlockSet e1') = length (BlockSet e1) + length cs \<and>
      HasMaxBlocks e1' =
        Returns (length (BlockSet e1) + length cs = unat (SegmentMaxBlocks (Schema t1)))) \<and>
   (HasMaxBlocks e2 = Returns True \<and> respects_max (cat2, e2) cs2 \<and>
    calls (cat2, e2) cs2 = Returns (cat2', e2') \<longrightarrow>
      HasMaxBlocks e2' = Returns True)"
proof (intro conjI impI)
  assume "Table e = Some t \<and> length (BlockSet e) < 2 ^ 63"
  then show "HasMaxBlocks e =
        Returns (IsSorted e \<or> length (BlockSet e) = unat (SegmentMaxBlocks (Schema t)))"
    by (simp add: HasMaxBlocks_iff)
next
  assume a: "\<not> IsSorted e1 \<and> Table e1 = Some t1 \<and> list_all is_create cs \<and>
    calls (cat1, e1) cs = Returns (cat1', e1') \<and> length (BlockSet e1') < 2 ^ 63"
  then have c: "length (BlockSet e1') = length (BlockSet e1) + length cs"
    "\<not> IsSorted e1'" "Table e1' = Some t1"
    using creates_count [of cs "(cat1, e1)" "(cat1', e1')"] by simp_all
  show "length (BlockSet e1') = length (BlockSet e1) + length cs" by (rule c)
  show "HasMaxBlocks e1' =
        Returns (length (BlockSet e1) + length cs = unat (SegmentMaxBlocks (Schema t1)))"
    using a c HasMaxBlocks_iff [of e1' t1] by simp
next
  assume "HasMaxBlocks e2 = Returns True \<and> respects_max (cat2, e2) cs2 \<and>
    calls (cat2, e2) cs2 = Returns (cat2', e2')"
  then show "HasMaxBlocks e2' = Returns True"
    using calls_keep_max [of "(cat2, e2)" cs2 "(cat2', e2')"] by simp
qed

lemmas run_defs = CreateBlock_def newBlockEntry_def NextBlockId_def Lock_def onNewBlock_def
  Unlock_def

lemma ex_empty_creates:
  "\<exists>e'. calls (ex_catalog, ex_empty) [Call_CreateBlock 5 None False, Call_CreateBlock 6 None False] =
      Returns (ex_catalog\<lparr>Sequence := \<lparr>nextBlockId = 4, nextUncommitId = 100\<rparr>\<rparr>, e') \<and>
      BlockSet e' = [ex_block 3 5 0, ex_block 4 6 0] \<and> Table e' = Some ex_table \<and>
      \<not> IsSorted e'"
  by (simp add: run_defs ex_empty_def ex_defs IsSorted_def)

lemma ex_full_upgrades:
  "\<exists>cat' e'. calls (ex_catalog, ex_full) [Call_Upgrade 10 None False, Call_Upgrade 11 None False] =
      Returns (cat', e') \<and>
    respects_max (ex_catalog, ex_full) [Call_Upgrade 10 None False, Call_Upgrade 11 None False]"
proof -
  have h: "readers (RWMutex ex_full) = 0" "\<not> writer (RWMutex ex_full)"
    "Table ex_full = Some ex_table"
    "int (length (BlockSet ex_full)) = sint (SegmentMaxBlocks (Schema ex_table))"
    "list_all (IsFull (BlockMaxRows (Schema ex_table))) (BlockSet ex_full)"
    "Op (CommitInfo ex_full) = OpCreate"
    "new_cInfo ex_full 10 OpUpgradeSorted None = Returns (ex_commit 10 OpUpgradeSorted)"
    "CommitId (CommitInfo ex_full) < 10"
    "False \<longrightarrow> Table.Catalog ex_table \<noteq> None"
    by (simp_all add: ex_defs IsFull_def new_cInfo_def calcAppliedIndex_def
        Block_GetAppliedIndex_def BaseEntry_GetAppliedIndex_def word_less_nat_alt)
  note u1 = Upgrade_success [OF h, of ex_catalog]
  have s: "IsSorted (upgraded ex_full (ex_commit 10 OpUpgradeSorted))"
    "\<not> writer (RWMutex (upgraded ex_full (ex_commit 10 OpUpgradeSorted)))"
    using h(2) by (simp_all add: IsSorted_def ex_commit_def)
  note u2 = Upgrade_sorted [OF s, of ex_catalog 11 None False]
  show ?thesis using u1 u2 by simp
qed

theorem HasMaxBlocks_monotonic_witness:
  "Table ex_full = Some ex_table \<and> length (BlockSet ex_full) < 2 ^ 63 \<and>
   HasMaxBlocks ex_full = Returns True \<and>
   \<not> IsSorted ex_empty \<and> Table ex_empty = Some ex_table \<and>
   list_all is_create [Call_CreateBlock 5 None False, Call_CreateBlock 6 None False] \<and>
   (\<exists>cat1' e1'.
      calls (ex_catalog, ex_empty) [Call_CreateBlock 5 None False, Call_CreateBlock 6 None False] =
        Returns (cat1', e1') \<and>
      length (BlockSet e1') < 2 ^ 63 \<and> length (BlockSet e1') = 2 \<and>
      HasMaxBlocks e1' = Returns True) \<and>
   respects_max (ex_catalog, ex_full) [Call_Upgrade 10 None False, Call_Upgrade 11 None False] \<and>
   (\<exists>cat2' e2'.
      calls (ex_catalog, ex_full) [Call_Upgrade 10 None False, Call_Upgrade 11 None False] =
        Returns (cat2', e2') \<and>
      HasMaxBlocks e2' = Returns True)"
proof -
  have h1: "Table ex_full = Some ex_table" "length (BlockSet ex_full) < 2 ^ 63"
    by (simp_all add: ex_full_def ex_segment_def)
  have h2: "\<not> IsSorted ex_empty" "Table ex_empty = Some ex_table" "BlockSet ex_empty = []"
    by (simp_all add: IsSorted_def ex_empty_def ex_defs)
  have h3: "list_all is_create [Call_CreateBlock 5 None False, Call_CreateBlock 6 None False]"
    by simp
  obtain e1' where r1:
    "calls (ex_catalog, ex_empty) [Call_CreateBlock 5 None False, Call_CreateBlock 6 None False] =
      Returns (ex_catalog\<lparr>Sequence := \<lparr>nextBlockId = 4, nextUncommitId = 100\<rparr>\<rparr>, e1')"
    and b1: "BlockSet e1' = [ex_block 3 5 0, ex_block 4 6 0]"
    using ex_empty_creates by blast
  have l1: "length (BlockSet e1') < 2 ^ 63" by (simp add: b1)
  obtain cat2' e2' where r2:
    "calls (ex_catalog, ex_full) [Call_Upgrade 10 None False, Call_Upgrade 11 None False] =
      Returns (cat2', e2')"
    and p2: "respects_max (ex_catalog, ex_full) [Call_Upgrade 10 None False, Call_Upgrade 11 None False]"
    using ex_full_upgrades by blast
  have m: "unat (SegmentMaxBlocks (Schema ex_table)) = 2" "IsSorted ex_full = False"
    "length (BlockSet ex_full) = 2"
    by (simp_all add: ex_defs IsSorted_def)
  note t = HasMaxBlocks_monotonic [of ex_full ex_table ex_empty ex_table
      "[Call_CreateBlock 5 None False, Call_CreateBlock 6 None False]" ex_catalog
      "ex_catalog\<lparr>Sequence := \<lparr>nextBlockId = 4, nextUncommitId = 100\<rparr>\<rparr>" e1'
      ex_full ex_catalog "[Call_Upgrade 10 None False, Call_Upgrade 11 None False]" cat2' e2']
  have c1: "HasMaxBlocks ex_full = Returns True" using t h1 m by simp
  have c2: "HasMaxBlocks e1' = Returns True" using t h2 h3 r1 l1 m by simp
  have c3: "HasMaxBlocks e2' = Returns True" using t c1 p2 r2 by simp
  show ?thesis
    using h1 h2 h3 c1 c2 c3 r1 r2 p2 l1 b1 by auto
qed

end
